(* ===== verification/Go_Base.thy ===== *)
theory Go_Base
  imports Main "HOL-Library.AList"
begin

section \<open>Prelude: the Go values and library calls the components share\<close>

text \<open>
  This theory holds what every component of the exporter uses: the outcome of a Go function
  (a value, an error, or a panic), the error chain that \<open>fmt.Errorf\<close>, \<open>errors.Is\<close> and
  \<open>errors.Join\<close> build, the clock (\<open>time.Time\<close>, \<open>time.Duration\<close>), 64-bit signed
  arithmetic, the conversion of an integer to \<open>float64\<close>, and the string helpers
  (\<open>strconv.Itoa\<close>, \<open>strings.Join\<close>). A Go string is a byte string, and so is a
  HOL \<open>string\<close>: a \<open>char\<close> is a byte, and \<open>length\<close> counts bytes.
\<close>

named_theorems go_simps \<open>unfolding rules for the small Go helpers\<close>

subsection \<open>Errors, panics and results\<close>

text \<open>
  The errors the program builds. \<open>External\<close> is an error that comes from outside (a library
  or a remote system), \<open>NotFound\<close> the API server's answer for a missing object (the class
  \<open>apierrors.IsNotFound\<close> recognises), \<open>ErrNotExist\<close> that of \<^verbatim>\<open>io/fs\<close>, \<open>ErrContainerImageNotFound\<close> the sentinel of
  \<^verbatim>\<open>cache.go\<close>, \<open>errNoOSRelease\<close> the one of \<^verbatim>\<open>exporter.go\<close>, \<open>Errorf\<close> the
  result of \<open>fmt.Errorf\<close> with a \<open>%w\<close> verb, whose operand may be a nil error, and
  \<open>Joined\<close> the result of \<open>errors.Join\<close>.
\<close>

datatype error =
    External string
  | NotFound
  | ErrNotExist
  | ErrContainerImageNotFound
  | errNoOSRelease
  | ErrTooLong
  | Errorf string "error option"
  | Joined "error list"

text \<open>\<open>errors.Is err target\<close> for a sentinel target: a nil error matches nothing; otherwise the
  error itself or anything it wraps has to be the target.\<close>

fun error_is :: "error \<Rightarrow> error \<Rightarrow> bool" where
  "error_is target (Errorf s (Some e)) = (Errorf s (Some e) = target \<or> error_is target e)"
| "error_is target (Joined es) = (Joined es = target \<or> (\<exists>e\<in>set es. error_is target e))"
| "error_is target e = (e = target)"

definition errors_Is :: "error option \<Rightarrow> error \<Rightarrow> bool" where
  "errors_Is err target = (case err of None \<Rightarrow> False | Some e \<Rightarrow> error_is target e)"

text \<open>The outcome of a call: a value with a nil error, an error, or a run-time panic.\<close>

datatype 'a outcome = Ok (the_Ok: 'a) | Err error | Panic

fun is_Ok :: "'a outcome \<Rightarrow> bool" where
  "is_Ok (Ok _) = True"
| "is_Ok _ = False"

definition wrap :: "string \<Rightarrow> 'a outcome \<Rightarrow> 'a outcome" where
  "wrap msg r = (case r of Err e \<Rightarrow> Err (Errorf msg (Some e)) | _ \<Rightarrow> r)"

lemma is_Ok_iff: "is_Ok r \<longleftrightarrow> (\<exists>v. r = Ok v)"
  by (cases r) auto

lemma wrap_Ok_iff [simp]: "wrap msg r = Ok v \<longleftrightarrow> r = Ok v"
  by (cases r) (auto simp: wrap_def)

lemma wrap_Panic_iff [simp]: "wrap msg r = Panic \<longleftrightarrow> r = Panic"
  by (cases r) (auto simp: wrap_def)

lemma wrap_simps [simp]:
  "wrap msg (Ok v) = Ok v" "wrap msg (Err e) = Err (Errorf msg (Some e))" "wrap msg Panic = Panic"
  by (simp_all add: wrap_def)

lemma errors_Is_None [simp]: "\<not> errors_Is None t"
  by (simp add: errors_Is_def)

lemma errors_Is_refl [simp]: "errors_Is (Some ErrContainerImageNotFound) ErrContainerImageNotFound"
  by (simp add: errors_Is_def)

subsection \<open>Signed 64-bit integers\<close>

definition int64 :: "int \<Rightarrow> int" where
  "int64 x = (x + 2 ^ 63) mod 2 ^ 64 - 2 ^ 63"

definition max_int64 :: int where
  "max_int64 = 2 ^ 63 - 1"

lemma int64_range: "- (2 ^ 63) \<le> int64 x \<and> int64 x \<le> max_int64"
proof -
  have "0 \<le> (x + 2 ^ 63) mod 2 ^ 64 \<and> (x + 2 ^ 63) mod 2 ^ 64 < (2 ^ 64 :: int)"
    by simp
  then show ?thesis by (simp add: int64_def max_int64_def)
qed

lemma int64_id: "- (2 ^ 63) \<le> x \<Longrightarrow> x \<le> max_int64 \<Longrightarrow> int64 x = x"
  by (simp add: int64_def max_int64_def)

lemma int64_add_left: "int64 (int64 a + b) = int64 (a + b)"
proof -
  have "(int64 a + b + 2 ^ 63) mod 2 ^ 64 = ((a + 2 ^ 63) mod 2 ^ 64 + b) mod 2 ^ 64"
    by (simp add: int64_def algebra_simps)
  also have "\<dots> = ((a + 2 ^ 63) + b) mod 2 ^ 64"
    by (rule mod_add_left_eq)
  also have "(a + 2 ^ 63) + b = (a + b) + 2 ^ 63"
    by simp
  finally show ?thesis by (simp add: int64_def)
qed

subsection \<open>Integers as float64\<close>

text \<open>
  \<open>float64(n)\<close> for an integer \<open>n\<close>: exact below \<open>2 ^ 53\<close>, otherwise rounded to 53
  significant bits, ties to even. The value is always an integer, so it is kept as one.
\<close>

fun bit_length :: "nat \<Rightarrow> nat" where
  "bit_length n = (if n = 0 then 0 else Suc (bit_length (n div 2)))"

declare bit_length.simps [simp del]

definition round_bits :: "nat \<Rightarrow> nat" where
  "round_bits a =
     (let e = bit_length a - 53; q = a div 2 ^ e; r = a mod 2 ^ e; h = 2 ^ e div 2
      in if e = 0 then a
         else if h < r \<or> (r = h \<and> odd q) then Suc q * 2 ^ e else q * 2 ^ e)"

definition float64_of_int :: "int \<Rightarrow> int" where
  "float64_of_int n = sgn n * int (round_bits (nat \<bar>n\<bar>))"

lemma bit_length_le: "a < 2 ^ k \<Longrightarrow> bit_length a \<le> k"
proof (induction k arbitrary: a)
  case 0
  then show ?case by (simp add: bit_length.simps)
next
  case (Suc k)
  then have "a div 2 < 2 ^ k" by simp
  with Suc.IH show ?case by (simp add: bit_length.simps [of a])
qed

lemma float64_of_int_exact: "\<bar>n\<bar> < 2 ^ 53 \<Longrightarrow> float64_of_int n = n"
proof -
  assume "\<bar>n\<bar> < 2 ^ 53"
  then have "nat \<bar>n\<bar> < 2 ^ 53" by simp
  then have "bit_length (nat \<bar>n\<bar>) - 53 = 0" using bit_length_le by fastforce
  then show ?thesis
    by (simp add: float64_of_int_def round_bits_def mult.commute abs_mult_sgn)
qed

subsection \<open>The clock\<close>

text \<open>
  A \<open>time.Time\<close> is the number of nanoseconds since Go's zero time (January 1 of year 1,
  UTC), which is what \<open>IsZero\<close> tests; a \<open>time.Duration\<close> is a number of nanoseconds.
\<close>

datatype time = At (nanos: int)

type_synonym duration = int

instantiation time :: linorder
begin

definition less_eq_time :: "time \<Rightarrow> time \<Rightarrow> bool" where
  "less_eq_time a b \<longleftrightarrow> nanos a \<le> nanos b"

definition less_time :: "time \<Rightarrow> time \<Rightarrow> bool" where
  "less_time a b \<longleftrightarrow> nanos a < nanos b"

instance
  by standard (auto simp: less_eq_time_def less_time_def time.expand)

end

definition Before :: "time \<Rightarrow> time \<Rightarrow> bool" where
  "Before a b \<longleftrightarrow> a < b"

definition Time_Add :: "time \<Rightarrow> duration \<Rightarrow> time" where
  "Time_Add t d = At (nanos t + d)"

definition zero_time :: time where
  "zero_time = At 0"

definition IsZero :: "time \<Rightarrow> bool" where
  "IsZero t \<longleftrightarrow> t = zero_time"

definition Unix :: "time \<Rightarrow> int" where
  "Unix t = nanos t div 1000000000 - 62135596800"

lemma time_le_simps [go_simps]:
  "At a \<le> At b \<longleftrightarrow> a \<le> b" "At a < At b \<longleftrightarrow> a < b"
  by (simp_all add: less_eq_time_def less_time_def)

lemma Unix_mono: "s \<le> t \<Longrightarrow> Unix s \<le> Unix t"
  by (simp add: Unix_def less_eq_time_def zdiv_mono1)

lemma Unix_zero_time: "Unix zero_time = - 62135596800"
  by (simp add: Unix_def zero_time_def)

subsection \<open>Strings\<close>

fun digits :: "nat \<Rightarrow> string" where
  "digits n =
     (if n < 10 then [char_of (n + 48)] else digits (n div 10) @ [char_of (n mod 10 + 48)])"

declare digits.simps [simp del]

definition Itoa :: "int \<Rightarrow> string" where
  "Itoa i = (if i < 0 then CHR ''-'' # digits (nat (- i)) else digits (nat i))"

fun strings_Join :: "string list \<Rightarrow> string \<Rightarrow> string" where
  "strings_Join [] sep = []"
| "strings_Join [s] sep = s"
| "strings_Join (s # t # ts) sep = s @ sep @ strings_Join (t # ts) sep"

definition digit_chars :: "char set" where
  "digit_chars = char_of ` {48..<58 :: nat}"

lemma char_of_digit_inj: "a < 10 \<Longrightarrow> b < 10 \<Longrightarrow> char_of (a + 48 :: nat) = char_of (b + 48) \<Longrightarrow> a = b"
proof -
  assume a: "a < 10" and b: "b < 10" and eq: "char_of (a + 48 :: nat) = char_of (b + 48)"
  from eq have "(of_char (char_of (a + 48) :: char) :: nat) = of_char (char_of (b + 48) :: char)"
    by simp
  then show "a = b" using a b by simp
qed

lemma digits_chars: "set (digits n) \<subseteq> digit_chars"
proof (induction n rule: digits.induct)
  case (1 n)
  have d: "char_of (k + 48) \<in> digit_chars" if "k < 10" for k :: nat
    using that by (auto simp: digit_chars_def)
  show ?case
  proof (cases "n < 10")
    case True
    then show ?thesis by (simp add: digits.simps [of n] d)
  next
    case False
    with 1 d [of "n mod 10"] show ?thesis by (simp add: digits.simps [of n])
  qed
qed

lemma digits_nonempty [simp]: "digits n \<noteq> []"
  by (simp add: digits.simps [of n])

lemma digits_inj: "digits m = digits n \<Longrightarrow> m = n"
proof (induction m arbitrary: n rule: digits.induct)
  case (1 m)
  have short: "\<exists>c. digits k = [c]" if "k < 10" for k
    using that by (simp add: digits.simps [of k])
  have long: "\<exists>a b cs. digits k = a # b # cs" if "\<not> k < 10" for k
    using that by (cases "digits (k div 10)"; cases "tl (digits (k div 10))")
      (auto simp: digits.simps [of k])
  show ?case
  proof (cases "m < 10")
    case True
    with "1.prems" short [of m] long [of n] have "n < 10" by force
    with True "1.prems" show ?thesis
      by (auto simp: digits.simps [of m] digits.simps [of n] dest: char_of_digit_inj)
  next
    case False
    with "1.prems" short [of n] long [of m] have n: "\<not> n < 10" by force
    from "1.prems" False n have "digits (m div 10) = digits (n div 10)"
      and "char_of (m mod 10 + 48) = (char_of (n mod 10 + 48) :: char)"
      by (auto simp: digits.simps [of m] digits.simps [of n])
    with "1.IH" False have "m div 10 = n div 10" and "m mod 10 = n mod 10"
      by (auto dest: char_of_digit_inj)
    then show ?thesis by (metis div_mult_mod_eq)
  qed
qed

subsection \<open>Splitting a list at a separator\<close>

lemma split_unique:
  "xs @ c # us = ys @ c # vs \<Longrightarrow> c \<notin> set xs \<Longrightarrow> c \<notin> set ys \<Longrightarrow> xs = ys \<and> us = vs"
proof (induction xs arbitrary: ys)
  case Nil
  then show ?case by (cases ys) auto
next
  case (Cons x xs)
  then show ?case by (cases ys) auto
qed

lemma Itoa_nat [simp]: "Itoa (int i) = digits i"
  by (simp add: Itoa_def)

lemma digit_chars_code: "c \<in> digit_chars \<Longrightarrow> 48 \<le> (of_char c :: nat) \<and> (of_char c :: nat) < 58"
  by (auto simp: digit_chars_def)

lemma not_in_digits:
  assumes "of_char c < (48 :: nat) \<or> 58 \<le> (of_char c :: nat)"
  shows "c \<notin> set (digits n)"
  using assms digits_chars [of n] digit_chars_code by fastforce

subsection \<open>Lists\<close>

text \<open>The elements of a list, each at its first occurrence: what a loop with a \<open>seen\<close> set visits.\<close>

fun firsts :: "'a list \<Rightarrow> 'a list" where
  "firsts [] = []"
| "firsts (x # xs) = x # filter (\<lambda>y. y \<noteq> x) (firsts xs)"

lemma set_firsts [simp]: "set (firsts xs) = set xs"
  by (induction xs) auto

lemma distinct_firsts [simp]: "distinct (firsts xs)"
  by (induction xs) auto

lemma set_map_filter: "set (List.map_filter f xs) = {y. \<exists>x \<in> set xs. f x = Some y}"
  by (induction xs) (auto simp: List.map_filter_simps split: option.split)

subsection \<open>JSON\<close>

text \<open>A JSON document: a number is its literal, an object the list of its fields in their order,
  duplicates included.\<close>

datatype json =
    JNull
  | JBool bool
  | JNum string
  | JStr string
  | JArr "json list"
  | JObj "(string \<times> json) list"

type_synonym json_obj = "(string \<times> json) list"

end
