(* ===== verification/Container_Specs.thy ===== *)
theory Container_Specs
  imports Go_Base
begin

section \<open>Container specs of an unstructured object (\<^verbatim>\<open>internal/clusterexporter/reconciler.go\<close>)\<close>

text \<open>
  The reconciler and the exporter read the container images, the pull secrets and the service
  account of a Kubernetes object from its JSON form, where \<open>map_of\<close> is the Go map access. The three path functions of
  \<^verbatim>\<open>apimachinery/unstructured\<close> the code calls are not part of the repository: they are the
  record \<open>unstructured_lib\<close>, a parameter of every definition, and \<open>nested_contract\<close> states
  their documented behaviour.
\<close>

subsection \<open>JSON documents and the library's path functions\<close>

text \<open>The type assertions \<open>v.(map[string]interface{})\<close> and \<open>v.(string)\<close>; a key that is
  missing reads as a nil interface, which fails both.\<close>

fun as_map :: "json \<Rightarrow> json_obj option" where
  "as_map (JObj m) = Some m"
| "as_map _ = None"

fun as_string :: "json option \<Rightarrow> string option" where
  "as_string (Some (JStr s)) = Some s"
| "as_string _ = None"

lemma as_map_eq_Some [simp]: "as_map v = Some m \<longleftrightarrow> v = JObj m"
  by (cases v) auto

lemma as_string_eq_Some [simp]: "as_string v = Some s \<longleftrightarrow> v = Some (JStr s)"
  by (cases v rule: as_string.cases) auto

record unstructured_lib =
  NestedSlice :: "json_obj \<Rightarrow> string list \<Rightarrow> json list \<times> bool \<times> error option"
  NestedFieldNoCopy :: "json_obj \<Rightarrow> string list \<Rightarrow> json \<times> bool \<times> error option"
  NestedString :: "json_obj \<Rightarrow> string list \<Rightarrow> string \<times> bool \<times> error option"

text \<open>The value at a path of field names, if every step of the path is an object that has the field.\<close>

fun field_at :: "json \<Rightarrow> string list \<Rightarrow> json option" where
  "field_at v [] = Some v"
| "field_at (JObj m) (k # ks) = (case map_of m k of None \<Rightarrow> None | Some v \<Rightarrow> field_at v ks)"
| "field_at _ (_ # _) = None"

definition nested_contract :: "unstructured_lib \<Rightarrow> bool" where
  "nested_contract L \<longleftrightarrow>
     (\<forall>obj path. fst (NestedSlice L obj path) =
        (case field_at (JObj obj) path of Some (JArr xs) \<Rightarrow> xs | _ \<Rightarrow> []))
   \<and> (\<forall>obj path. fst (NestedString L obj path) =
        (case field_at (JObj obj) path of Some (JStr s) \<Rightarrow> s | _ \<Rightarrow> ''''))
   \<and> (\<forall>obj path. case field_at (JObj obj) path of
        Some v \<Rightarrow> fst (NestedFieldNoCopy L obj path) = v \<and> fst (snd (NestedFieldNoCopy L obj path))
      | None \<Rightarrow> \<not> fst (snd (NestedFieldNoCopy L obj path)))"

text \<open>A concrete library with this behaviour, for the closed examples.\<close>

definition example_lib :: unstructured_lib where
  "example_lib =
     \<lparr> NestedSlice = (\<lambda>obj path. case field_at (JObj obj) path of
          Some (JArr xs) \<Rightarrow> (xs, True, None) | _ \<Rightarrow> ([], False, None)),
       NestedFieldNoCopy = (\<lambda>obj path. case field_at (JObj obj) path of
          Some v \<Rightarrow> (v, True, None) | None \<Rightarrow> (JNull, False, None)),
       NestedString = (\<lambda>obj path. case field_at (JObj obj) path of
          Some (JStr s) \<Rightarrow> (s, True, None) | _ \<Rightarrow> ('''', False, None)) \<rparr>"

lemma example_lib_contract: "nested_contract example_lib"
  by (auto simp: nested_contract_def example_lib_def split: option.splits json.splits)

lemma contract_slice:
  "nested_contract L \<Longrightarrow> fst (NestedSlice L obj path) =
     (case field_at (JObj obj) path of Some (JArr xs) \<Rightarrow> xs | _ \<Rightarrow> [])"
  by (simp add: nested_contract_def)

lemma contract_string:
  "nested_contract L \<Longrightarrow> fst (NestedString L obj path) =
     (case field_at (JObj obj) path of Some (JStr s) \<Rightarrow> s | _ \<Rightarrow> '''')"
  by (simp add: nested_contract_def)

lemma contract_field:
  "nested_contract L \<Longrightarrow>
     (case field_at (JObj obj) path of
        Some v \<Rightarrow> \<exists>e. NestedFieldNoCopy L obj path = (v, True, e)
      | None \<Rightarrow> \<exists>v e. NestedFieldNoCopy L obj path = (v, False, e))"
  unfolding nested_contract_def
  by (cases "NestedFieldNoCopy L obj path") (auto split: option.splits dest!: spec [of _ obj] spec [of _ path])

subsection \<open>The code: \<open>containerSpecs\<close>, \<open>imagePullSecrets\<close>, \<open>serviceAccountName\<close>\<close>

record ContainerSpec =
  JSONPath :: string
  Name :: string
  Image :: string

text \<open>What all three loops do with one container object: the image has to be a string, the name
  is optional (a failed assertion leaves the empty string).\<close>

definition spec_of :: "string \<Rightarrow> json_obj \<Rightarrow> ContainerSpec option" where
  "spec_of jsonPath data =
     (case as_string (map_of data ''image'') of
        None \<Rightarrow> None
      | Some img \<Rightarrow>
          Some \<lparr> JSONPath = jsonPath,
                 Name = (case as_string (map_of data ''name'') of None \<Rightarrow> '''' | Some n \<Rightarrow> n),
                 Image = img \<rparr>)"

definition opt_cons :: "'a option \<Rightarrow> 'a list \<Rightarrow> 'a list" where
  "opt_cons x xs = (case x of None \<Rightarrow> xs | Some y \<Rightarrow> y # xs)"

text \<open>The path strings the code formats.\<close>

definition slice_path :: "string list \<Rightarrow> nat \<Rightarrow> string" where
  "slice_path path i = ''{.'' @ strings_Join path ''.'' @ ''['' @ Itoa (int i) @ '']}''"

definition single_path :: "string list \<Rightarrow> nat \<Rightarrow> string list \<Rightarrow> string" where
  "single_path prefix i suffix =
     ''{.'' @ strings_Join prefix ''.'' @ ''['' @ Itoa (int i) @ ''].'' @ strings_Join suffix ''.'' @ ''}''"

definition nested_path :: "string list \<Rightarrow> nat \<Rightarrow> string list \<Rightarrow> nat \<Rightarrow> string" where
  "nested_path prefix i suffix j =
     ''{.'' @ strings_Join prefix ''.'' @ ''['' @ Itoa (int i) @ ''].'' @ strings_Join suffix ''.''
       @ ''['' @ Itoa (int j) @ '']}''"

text \<open>The loop over a container list, with the index the loop has reached.\<close>

fun list_specs :: "(nat \<Rightarrow> string) \<Rightarrow> nat \<Rightarrow> json list \<Rightarrow> ContainerSpec list" where
  "list_specs jsonPath i [] = []"
| "list_specs jsonPath i (item # items) =
     (case as_map item of
        None \<Rightarrow> list_specs jsonPath (Suc i) items
      | Some data \<Rightarrow> opt_cons (spec_of (jsonPath i) data) (list_specs jsonPath (Suc i) items))"

text \<open>The index of the first wildcard segment, or -1.\<close>

fun wildcard_from :: "int \<Rightarrow> string list \<Rightarrow> int" where
  "wildcard_from i [] = -1"
| "wildcard_from i (seg # path) = (if seg = ''*'' then i else wildcard_from (i + 1) path)"

text \<open>One element of the list before the wildcard: the value at the suffix is a single container
  object, a list of them, or nothing the code reads.\<close>

definition item_specs :: "unstructured_lib \<Rightarrow> string list \<Rightarrow> nat \<Rightarrow> string list \<Rightarrow> json \<Rightarrow> ContainerSpec list" where
  "item_specs L prefix i suffix item =
     (case as_map item of
        None \<Rightarrow> []
      | Some itemMap \<Rightarrow>
          (case NestedFieldNoCopy L itemMap suffix of (val, ok, _) \<Rightarrow>
             if \<not> ok then []
             else (case val of
                     JObj v \<Rightarrow> opt_cons (spec_of (single_path prefix i suffix) v) []
                   | JArr v \<Rightarrow> list_specs (nested_path prefix i suffix) 0 v
                   | _ \<Rightarrow> [])))"

fun wildcard_specs :: "unstructured_lib \<Rightarrow> string list \<Rightarrow> nat \<Rightarrow> string list \<Rightarrow> json list \<Rightarrow> ContainerSpec list" where
  "wildcard_specs L prefix i suffix [] = []"
| "wildcard_specs L prefix i suffix (item # items) =
     item_specs L prefix i suffix item @ wildcard_specs L prefix (Suc i) suffix items"

definition specsForPath :: "unstructured_lib \<Rightarrow> json_obj \<Rightarrow> string list \<Rightarrow> ContainerSpec list" where
  "specsForPath L obj path =
     (let wildcardIdx = wildcard_from 0 path in
      if wildcardIdx = -1 then
        list_specs (slice_path path) 0 (fst (NestedSlice L obj path))
      else
        let prefix = take (nat wildcardIdx) path; suffix = drop (nat wildcardIdx + 1) path
        in wildcard_specs L prefix 0 suffix (fst (NestedSlice L obj prefix)))"

fun containerSpecs :: "unstructured_lib \<Rightarrow> json_obj \<Rightarrow> string list list \<Rightarrow> ContainerSpec list" where
  "containerSpecs L obj [] = []"
| "containerSpecs L obj (path # paths) = specsForPath L obj path @ containerSpecs L obj paths"

fun secret_names :: "json list \<Rightarrow> string list" where
  "secret_names [] = []"
| "secret_names (pullSecret # rest) =
     (case as_map pullSecret of
        None \<Rightarrow> secret_names rest
      | Some data \<Rightarrow> opt_cons (as_string (map_of data ''name'')) (secret_names rest))"

fun imagePullSecrets :: "unstructured_lib \<Rightarrow> json_obj \<Rightarrow> string list list \<Rightarrow> string list" where
  "imagePullSecrets L obj [] = []"
| "imagePullSecrets L obj (path # paths) =
     secret_names (fst (NestedSlice L obj path)) @ imagePullSecrets L obj paths"

fun serviceAccountName :: "unstructured_lib \<Rightarrow> json_obj \<Rightarrow> string list list \<Rightarrow> string" where
  "serviceAccountName L obj [] = ''''"
| "serviceAccountName L obj (path # paths) =
     (let name = fst (NestedString L obj path)
      in if name \<noteq> '''' then name else serviceAccountName L obj paths)"

subsection \<open>What the paths select\<close>

text \<open>
  The meaning of a path, stated on the document and not on the loops: \<open>container_loc obj path p v\<close>
  says that the value \<open>v\<close> stands at the JSONPath \<open>p\<close> of the object and that \<open>path\<close> selects it.
  \<open>is_container v n i\<close> says that \<open>v\<close> is a container object with name \<open>n\<close> and image \<open>i\<close>.
\<close>

inductive container_loc :: "json_obj \<Rightarrow> string list \<Rightarrow> string \<Rightarrow> json \<Rightarrow> bool" where
  slice: "\<lbrakk> ''*'' \<notin> set path; field_at (JObj obj) path = Some (JArr xs); i < length xs \<rbrakk>
    \<Longrightarrow> container_loc obj path (slice_path path i) (xs ! i)"
| single: "\<lbrakk> ''*'' \<notin> set prefix; field_at (JObj obj) prefix = Some (JArr xs); i < length xs;
     xs ! i = JObj m; field_at (JObj m) suffix = Some (JObj c) \<rbrakk>
    \<Longrightarrow> container_loc obj (prefix @ ''*'' # suffix) (single_path prefix i suffix) (JObj c)"
| nested: "\<lbrakk> ''*'' \<notin> set prefix; field_at (JObj obj) prefix = Some (JArr xs); i < length xs;
     xs ! i = JObj m; field_at (JObj m) suffix = Some (JArr ys); j < length ys \<rbrakk>
    \<Longrightarrow> container_loc obj (prefix @ ''*'' # suffix) (nested_path prefix i suffix j) (ys ! j)"

definition is_container :: "json \<Rightarrow> string \<Rightarrow> string \<Rightarrow> bool" where
  "is_container v name img \<longleftrightarrow>
     (\<exists>m. v = JObj m \<and> map_of m ''image'' = Some (JStr img)
        \<and> name = (case map_of m ''name'' of Some (JStr n) \<Rightarrow> n | _ \<Rightarrow> ''''))"

lemma set_opt_cons [simp]: "set (opt_cons x xs) = set_option x \<union> set xs"
  by (cases x) (auto simp: opt_cons_def)

lemma spec_of_iff:
  "spec_of p m = Some s \<longleftrightarrow> JSONPath s = p \<and> is_container (JObj m) (Name s) (Image s)"
  by (cases s) (auto simp: spec_of_def is_container_def split: option.splits json.splits)

lemma as_map_None_not_container: "as_map v = None \<Longrightarrow> \<not> is_container v n i"
  by (auto simp: is_container_def)

lemma list_specs_iff:
  "s \<in> set (list_specs f i items) \<longleftrightarrow>
     (\<exists>k < length items. JSONPath s = f (i + k) \<and> is_container (items ! k) (Name s) (Image s))"
proof (induction items arbitrary: i)
  case Nil
  then show ?case by simp
next
  case (Cons item items)
  have here: "s \<in> set (list_specs f i (item # items)) \<longleftrightarrow>
      (JSONPath s = f i \<and> is_container item (Name s) (Image s)) \<or> s \<in> set (list_specs f (Suc i) items)"
    by (cases "as_map item")
      (auto simp: as_map_None_not_container spec_of_iff elem_set)
  show ?case
    unfolding here Cons.IH by (auto simp: less_Suc_eq_0_disj)
qed

lemma item_specs_iff:
  assumes L: "nested_contract L"
  shows "s \<in> set (item_specs L prefix i suffix item) \<longleftrightarrow>
     (\<exists>m. item = JObj m \<and>
        ((\<exists>c. field_at (JObj m) suffix = Some (JObj c) \<and> JSONPath s = single_path prefix i suffix
            \<and> is_container (JObj c) (Name s) (Image s))
       \<or> (\<exists>ys j. field_at (JObj m) suffix = Some (JArr ys) \<and> j < length ys
            \<and> JSONPath s = nested_path prefix i suffix j \<and> is_container (ys ! j) (Name s) (Image s))))"
proof (cases "as_map item")
  case None
  then show ?thesis by (auto simp: item_specs_def)
next
  case (Some m)
  then have item: "item = JObj m" by simp
  show ?thesis
  proof (cases "field_at (JObj m) suffix")
    case None
    with contract_field [OF L, of m suffix] item show ?thesis
      by (auto simp: item_specs_def)
  next
    case (Some v)
    with contract_field [OF L, of m suffix] obtain e
      where e: "NestedFieldNoCopy L m suffix = (v, True, e)" by auto
    show ?thesis
      by (cases v)
        (simp_all add: item item_specs_def e Some elem_set spec_of_iff list_specs_iff)
  qed
qed

lemma wildcard_specs_iff:
  "s \<in> set (wildcard_specs L prefix i suffix items) \<longleftrightarrow>
     (\<exists>k < length items. s \<in> set (item_specs L prefix (i + k) suffix (items ! k)))"
proof (induction items arbitrary: i)
  case Nil
  then show ?case by simp
next
  case (Cons item items)
  then show ?case by (auto simp: less_Suc_eq_0_disj)
qed

lemma wildcard_from_append:
  "''*'' \<notin> set prefix \<Longrightarrow> wildcard_from i (prefix @ ''*'' # suffix) = i + int (length prefix)"
  by (induction prefix arbitrary: i) auto

lemma wildcard_from_none: "''*'' \<notin> set path \<Longrightarrow> wildcard_from i path = -1"
  by (induction path arbitrary: i) auto

lemma specsForPath_slice:
  "''*'' \<notin> set path \<Longrightarrow>
     specsForPath L obj path = list_specs (slice_path path) 0 (fst (NestedSlice L obj path))"
  by (simp add: specsForPath_def wildcard_from_none)

lemma specsForPath_wildcard:
  "''*'' \<notin> set prefix \<Longrightarrow>
     specsForPath L obj (prefix @ ''*'' # suffix) =
       wildcard_specs L prefix 0 suffix (fst (NestedSlice L obj prefix))"
  by (simp add: specsForPath_def wildcard_from_append nat_add_distrib)

lemma path_cases [case_names slice wildcard]:
  assumes "''*'' \<notin> set path \<Longrightarrow> P"
    and "\<And>prefix suffix. path = prefix @ ''*'' # suffix \<Longrightarrow> ''*'' \<notin> set prefix \<Longrightarrow> P"
  shows P
proof (cases "''*'' \<in> set path")
  case True
  with assms(2) show ?thesis by (blast dest: split_list_first)
qed (rule assms(1))

inductive_simps container_loc_simps: "container_loc obj path p v"

lemma container_loc_slice_iff:
  "''*'' \<notin> set path \<Longrightarrow> container_loc obj path p v \<longleftrightarrow>
     (\<exists>xs i. field_at (JObj obj) path = Some (JArr xs) \<and> i < length xs \<and> p = slice_path path i \<and> v = xs ! i)"
  by (auto simp: container_loc_simps)

lemma container_loc_wildcard_iff:
  assumes "''*'' \<notin> set prefix"
  shows "container_loc obj (prefix @ ''*'' # suffix) p v \<longleftrightarrow>
     (\<exists>xs i m. field_at (JObj obj) prefix = Some (JArr xs) \<and> i < length xs \<and> xs ! i = JObj m
        \<and> ((\<exists>c. field_at (JObj m) suffix = Some (JObj c) \<and> p = single_path prefix i suffix \<and> v = JObj c)
         \<or> (\<exists>ys j. field_at (JObj m) suffix = Some (JArr ys) \<and> j < length ys
              \<and> p = nested_path prefix i suffix j \<and> v = ys ! j)))"
  (is "?L \<longleftrightarrow> ?R")
proof
  assume ?L
  then show ?R
  proof (cases rule: container_loc.cases)
    case slice
    then show ?thesis by simp
  next
    case (single q xs i m r c)
    then have "q = prefix" "r = suffix" using assms split_unique by metis+
    with single show ?thesis by blast
  next
    case (nested q xs i m r ys j)
    then have "q = prefix" "r = suffix" using assms split_unique by metis+
    with nested show ?thesis by blast
  qed
next
  assume ?R
  then show ?L using assms by (auto intro: container_loc.single container_loc.nested)
qed

lemma specsForPath_iff:
  assumes L: "nested_contract L"
  shows "s \<in> set (specsForPath L obj path) \<longleftrightarrow>
     (\<exists>v. container_loc obj path (JSONPath s) v \<and> is_container v (Name s) (Image s))"
proof (cases path rule: path_cases)
  case slice
  then show ?thesis
    by (auto simp: specsForPath_slice contract_slice [OF L] list_specs_iff container_loc_slice_iff
        split: option.splits json.splits)
next
  case (wildcard prefix suffix)
  show ?thesis
    unfolding wildcard(1) specsForPath_wildcard [OF wildcard(2)] wildcard_specs_iff item_specs_iff [OF L]
      container_loc_wildcard_iff [OF wildcard(2)]
    by (cases "\<exists>xs. field_at (JObj obj) prefix = Some (JArr xs)")
      (fastforce simp: contract_slice [OF L] split: option.splits json.splits)+
qed

subsection \<open>JSONPaths are unique\<close>

text \<open>
  A path segment is clean when it is not empty and has none of the characters the formatted
  JSONPath uses as punctuation. Between clean segments the format can be read back, so two
  different containers never share a JSONPath.
\<close>

definition clean_seg :: "string \<Rightarrow> bool" where
  "clean_seg s \<longleftrightarrow> s \<noteq> [] \<and> list_all (\<lambda>c. c \<notin> {CHR ''.'', CHR ''['', CHR '']'', CHR ''}''}) s"

definition clean_path :: "string list \<Rightarrow> bool" where
  "clean_path path \<longleftrightarrow> list_all clean_seg path"

lemma clean_path_append [simp]: "clean_path (p @ q) \<longleftrightarrow> clean_path p \<and> clean_path q"
  by (simp add: clean_path_def)

lemma clean_path_Cons [simp]: "clean_path (s # p) \<longleftrightarrow> clean_seg s \<and> clean_path p"
  by (simp add: clean_path_def)

lemma join_clean:
  "clean_path path \<Longrightarrow> c \<in> {CHR ''['', CHR '']'', CHR ''}''} \<Longrightarrow> c \<notin> set (strings_Join path ''.'')"
  by (induction path "''.''" rule: strings_Join.induct) (auto simp: clean_seg_def list_all_iff)

lemma join_inj:
  "clean_path p \<Longrightarrow> clean_path q \<Longrightarrow> strings_Join p ''.'' = strings_Join q ''.'' \<Longrightarrow> p = q"
proof (induction p "''.''" arbitrary: q rule: strings_Join.induct)
  case 1
  then show ?case by (cases q rule: remdups_adj.cases) (auto simp: clean_seg_def)
next
  case (2 s)
  then show ?case
    by (cases q rule: remdups_adj.cases) (auto simp: clean_seg_def list_all_iff)
next
  case (3 s t ts)
  show ?case
  proof (cases q rule: remdups_adj.cases)
    case 1
    with "3.prems" show ?thesis by (simp add: clean_seg_def)
  next
    case (2 s')
    with "3.prems"(3) have "s' = s @ ''.'' @ strings_Join (t # ts) ''.''" by simp
    then have "CHR ''.'' \<in> set s'" by simp
    with "3.prems"(2) 2 show ?thesis by (auto simp: clean_seg_def list_all_iff)
  next
    case q: (3 s' t' ts')
    with "3.prems" have "s @ CHR ''.'' # strings_Join (t # ts) ''.'' = s' @ CHR ''.'' # strings_Join (t' # ts') ''.''"
      by simp
    then have "s = s' \<and> strings_Join (t # ts) ''.'' = strings_Join (t' # ts') ''.''"
      by (rule split_unique) (use "3.prems" q in \<open>auto simp: clean_seg_def list_all_iff\<close>)
    with 3(1) [of "t' # ts'"] "3.prems" q show ?thesis by simp
  qed
qed

lemma digits_punct [simp]: "CHR '']'' \<notin> set (digits n)" "CHR ''['' \<notin> set (digits n)"
  by (rule not_in_digits; simp)+

lemma bracket_inj:
  assumes "clean_path p" "clean_path q"
    and "strings_Join p ''.'' @ CHR ''['' # digits i @ CHR '']'' # us =
         strings_Join q ''.'' @ CHR ''['' # digits j @ CHR '']'' # vs"
  shows "p = q \<and> i = j \<and> us = vs"
proof -
  from assms(3) have 1: "strings_Join p ''.'' = strings_Join q ''.'' \<and>
      digits i @ CHR '']'' # us = digits j @ CHR '']'' # vs"
    by (rule split_unique) (simp_all add: join_clean assms)
  then have "digits i @ CHR '']'' # us = digits j @ CHR '']'' # vs" ..
  then have "digits i = digits j \<and> us = vs"
    by (rule split_unique) simp_all
  with 1 show ?thesis using assms join_inj digits_inj by blast
qed

lemma slice_path_inj:
  "clean_path p \<Longrightarrow> clean_path q \<Longrightarrow> slice_path p i = slice_path q j \<Longrightarrow> p = q \<and> i = j"
  using bracket_inj [of p q i "''}''" j "''}''"] by (simp add: slice_path_def)

lemma single_path_inj:
  assumes "clean_path p" "clean_path q" "clean_path s" "clean_path t"
    and "single_path p i s = single_path q j t"
  shows "p = q \<and> i = j \<and> s = t"
  using bracket_inj [of p q i "''.'' @ strings_Join s ''.'' @ ''}''" j "''.'' @ strings_Join t ''.'' @ ''}''"]
    assms join_inj by (auto simp: single_path_def)

lemma nested_path_inj:
  assumes "clean_path p" "clean_path q" "clean_path s" "clean_path t"
    and "nested_path p i s k = nested_path q j t l"
  shows "p = q \<and> i = j \<and> s = t \<and> k = l"
  using bracket_inj [of p q i "''.'' @ strings_Join s ''.'' @ ''['' @ digits k @ '']}''"
      j "''.'' @ strings_Join t ''.'' @ ''['' @ digits l @ '']}''"]
    bracket_inj [of s t k "''}''" l "''}''"] assms by (auto simp: nested_path_def)

lemma slice_single_differ:
  "clean_path p \<Longrightarrow> clean_path q \<Longrightarrow> slice_path p i \<noteq> single_path q j t"
  using bracket_inj [of p q i "''}''" j "''.'' @ strings_Join t ''.'' @ ''}''"]
  by (auto simp: slice_path_def single_path_def)

lemma slice_nested_differ:
  "clean_path p \<Longrightarrow> clean_path q \<Longrightarrow> slice_path p i \<noteq> nested_path q j t l"
  using bracket_inj [of p q i "''}''" j "''.'' @ strings_Join t ''.'' @ ''['' @ digits l @ '']}''"]
  by (auto simp: slice_path_def nested_path_def)

lemma single_nested_differ:
  assumes "clean_path p" "clean_path q" "clean_path s" "clean_path t"
  shows "single_path p i s \<noteq> nested_path q j t l"
proof
  assume "single_path p i s = nested_path q j t l"
  then have "strings_Join s ''.'' @ ''}'' = strings_Join t ''.'' @ ''['' @ digits l @ '']}''"
    using bracket_inj [of p q i "''.'' @ strings_Join s ''.'' @ ''}''"
      j "''.'' @ strings_Join t ''.'' @ ''['' @ digits l @ '']}''"] assms
    by (auto simp: single_path_def nested_path_def)
  then have "CHR ''['' \<in> set (strings_Join s ''.'' @ ''}'')" by simp
  with join_clean [OF assms(3), of "CHR ''[''"] show False by simp
qed

lemmas path_string_simps =
  slice_single_differ slice_nested_differ single_nested_differ
  slice_single_differ [symmetric] slice_nested_differ [symmetric] single_nested_differ [symmetric]

subsection \<open>No JSONPath twice in one object\<close>

definition item_paths :: "string list \<Rightarrow> nat \<Rightarrow> string list \<Rightarrow> string set" where
  "item_paths prefix i suffix = insert (single_path prefix i suffix) (range (nested_path prefix i suffix))"

definition rendered_by :: "string list \<Rightarrow> string set" where
  "rendered_by path =
     {p. ''*'' \<notin> set path \<and> p \<in> range (slice_path path)
       \<or> (\<exists>prefix suffix i. path = prefix @ ''*'' # suffix \<and> ''*'' \<notin> set prefix \<and> p \<in> item_paths prefix i suffix)}"

lemma list_specs_path: "s \<in> set (list_specs f i items) \<Longrightarrow> \<exists>k\<ge>i. JSONPath s = f k"
  unfolding list_specs_iff using le_add1 by blast

lemma distinct_list_specs: "inj f \<Longrightarrow> distinct (map JSONPath (list_specs f i items))"
proof (induction items arbitrary: i)
  case Nil
  then show ?case by simp
next
  case (Cons item items)
  have "JSONPath s \<noteq> f i" if "s \<in> set (list_specs f (Suc i) items)" for s
    using list_specs_path [OF that] Cons.prems by (auto simp: inj_eq)
  then have "f i \<notin> JSONPath ` set (list_specs f (Suc i) items)"
    by (auto dest: sym)
  with Cons show ?case
    by (auto simp: opt_cons_def spec_of_iff split: option.splits)
qed

lemma item_specs_path:
  assumes "s \<in> set (item_specs L prefix i suffix item)"
  shows "JSONPath s \<in> item_paths prefix i suffix"
proof -
  obtain val where "s \<in> set (case val of
      JObj v \<Rightarrow> opt_cons (spec_of (single_path prefix i suffix) v) []
    | JArr v \<Rightarrow> list_specs (nested_path prefix i suffix) 0 v | _ \<Rightarrow> [])"
    using assms by (auto simp: item_specs_def split: option.splits prod.splits if_splits)
  then show ?thesis
    by (cases val) (auto simp: item_paths_def elem_set spec_of_iff dest: list_specs_path)
qed

lemma distinct_item_specs:
  assumes "clean_path prefix" "clean_path suffix"
  shows "distinct (map JSONPath (item_specs L prefix i suffix item))"
proof -
  have "inj (nested_path prefix i suffix)"
    using nested_path_inj assms by (blast intro: injI)
  then show ?thesis
    by (auto simp: item_specs_def opt_cons_def distinct_list_specs
        split: option.splits prod.splits json.splits)
qed

lemma item_paths_cases:
  "x \<in> item_paths p i s \<Longrightarrow> x = single_path p i s \<or> (\<exists>k. x = nested_path p i s k)"
  by (auto simp: item_paths_def)

lemma item_paths_disjoint:
  assumes "clean_path p" "clean_path q" "clean_path s" "clean_path t"
    and "x \<in> item_paths p i s" "x \<in> item_paths q j t"
  shows "p = q \<and> i = j \<and> s = t"
  using item_paths_cases [OF assms(5)] item_paths_cases [OF assms(6)]
    single_path_inj [OF assms(1-4), of i j] nested_path_inj [OF assms(1-4), of i _ j]
    single_nested_differ [OF assms(1-4), of i j]
    single_nested_differ [OF assms(2,1,4,3), of j i]
  by metis

lemma wildcard_specs_path:
  "s \<in> set (wildcard_specs L prefix i suffix items) \<Longrightarrow> \<exists>k\<ge>i. JSONPath s \<in> item_paths prefix k suffix"
  using item_specs_path le_add1 unfolding wildcard_specs_iff by blast

lemma distinct_wildcard_specs:
  assumes "clean_path prefix" "clean_path suffix"
  shows "distinct (map JSONPath (wildcard_specs L prefix i suffix items))"
proof (induction items arbitrary: i)
  case Nil
  then show ?case by simp
next
  case (Cons item items)
  have "JSONPath s \<noteq> JSONPath t"
    if s: "s \<in> set (item_specs L prefix i suffix item)"
      and t: "t \<in> set (wildcard_specs L prefix (Suc i) suffix items)" for s t
  proof -
    obtain k where "Suc i \<le> k" "JSONPath t \<in> item_paths prefix k suffix"
      using wildcard_specs_path [OF t] by blast
    then show ?thesis
      using item_paths_disjoint [OF assms(1) assms(1) assms(2) assms(2) item_specs_path [OF s], of k]
      by auto
  qed
  then have "JSONPath ` set (item_specs L prefix i suffix item)
      \<inter> JSONPath ` set (wildcard_specs L prefix (Suc i) suffix items) = {}"
    by blast
  with Cons show ?case by (simp add: distinct_item_specs assms)
qed

lemma rendered_by_slice: "''*'' \<notin> set path \<Longrightarrow> rendered_by path = range (slice_path path)"
  by (auto simp: rendered_by_def)

lemma rendered_by_wildcard:
  assumes "''*'' \<notin> set prefix"
  shows "rendered_by (prefix @ ''*'' # suffix) = (\<Union>i. item_paths prefix i suffix)"
proof -
  have "p = prefix \<and> s = suffix" if "prefix @ ''*'' # suffix = p @ ''*'' # s" "''*'' \<notin> set p" for p s
    using split_unique [OF that(1) assms that(2)] by simp
  then show ?thesis using assms unfolding rendered_by_def by auto
qed

lemma specsForPath_rendered: "s \<in> set (specsForPath L obj path) \<Longrightarrow> JSONPath s \<in> rendered_by path"
proof (cases path rule: path_cases)
  case slice
  assume "s \<in> set (specsForPath L obj path)"
  with slice show ?thesis
    by (auto simp: specsForPath_slice rendered_by_slice dest: list_specs_path)
next
  case (wildcard prefix suffix)
  assume "s \<in> set (specsForPath L obj path)"
  with wildcard show ?thesis
    by (auto simp: specsForPath_wildcard rendered_by_wildcard dest: wildcard_specs_path)
qed

lemma distinct_specsForPath: "clean_path path \<Longrightarrow> distinct (map JSONPath (specsForPath L obj path))"
proof (cases path rule: path_cases)
  case slice
  assume "clean_path path"
  then have "inj (slice_path path)" using slice_path_inj by (blast intro: injI)
  with slice show ?thesis by (simp add: specsForPath_slice distinct_list_specs)
next
  case (wildcard prefix suffix)
  assume "clean_path path"
  with wildcard show ?thesis by (simp add: specsForPath_wildcard distinct_wildcard_specs)
qed

lemma rendered_by_disjoint:
  assumes "clean_path p" "clean_path q" "x \<in> rendered_by p" "x \<in> rendered_by q"
  shows "p = q"
proof (cases p rule: path_cases)
  case p: slice
  show ?thesis
  proof (cases q rule: path_cases)
    case slice
    with p assms show ?thesis by (auto simp: rendered_by_slice dest: slice_path_inj)
  next
    case (wildcard qp qs)
    with p assms show ?thesis
      by (auto simp: rendered_by_slice rendered_by_wildcard item_paths_def path_string_simps)
  qed
next
  case p: (wildcard pp ps)
  show ?thesis
  proof (cases q rule: path_cases)
    case slice
    with p assms show ?thesis
      by (auto simp: rendered_by_slice rendered_by_wildcard item_paths_def path_string_simps)
  next
    case q: (wildcard qp qs)
    with p assms show ?thesis
      by (auto simp: rendered_by_wildcard dest: item_paths_disjoint)
  qed
qed

lemma distinct_containerSpecs:
  "list_all clean_path paths \<Longrightarrow> distinct paths \<Longrightarrow>
     distinct (map JSONPath (containerSpecs L obj paths))"
proof (induction paths)
  case Nil
  then show ?case by simp
next
  case (Cons path paths)
  have rest: "\<exists>q\<in>set paths. JSONPath s \<in> rendered_by q" if "s \<in> set (containerSpecs L obj paths)" for s
    using that by (induction paths) (auto dest: specsForPath_rendered)
  have "JSONPath s \<noteq> JSONPath t"
    if s: "s \<in> set (specsForPath L obj path)" and t: "t \<in> set (containerSpecs L obj paths)" for s t
  proof -
    obtain q where "q \<in> set paths" "JSONPath t \<in> rendered_by q" using rest [OF t] by blast
    then show ?thesis
      using specsForPath_rendered [OF s] rendered_by_disjoint [of path q "JSONPath t"] Cons.prems
      by (auto simp: list_all_iff)
  qed
  then have "JSONPath ` set (specsForPath L obj path) \<inter> JSONPath ` set (containerSpecs L obj paths) = {}"
    by blast
  with Cons show ?case by (simp add: distinct_specsForPath)
qed


subsection \<open>Properties\<close>

lemma containerSpecs_union: "set (containerSpecs L obj paths) = (\<Union>path \<in> set paths. set (specsForPath L obj path))"
  by (induction paths) auto

text \<open>C5. The containers the code extracts from an object are exactly the container objects the
  watched paths select, wildcard or not: each with its JSONPath, its name (empty when it has none)
  and its image, and nothing that lacks a string image.\<close>

theorem containerSpecs_exact:
  assumes "nested_contract L"
  shows "s \<in> set (containerSpecs L obj paths) \<longleftrightarrow>
     (\<exists>path \<in> set paths. \<exists>v. container_loc obj path (JSONPath s) v \<and> is_container v (Name s) (Image s))"
  by (simp add: containerSpecs_union specsForPath_iff [OF assms])

definition example_pod :: json_obj where
  "example_pod =
     [(''spec'', JObj [(''containers'',
        JArr [JObj [(''name'', JStr ''a''), (''image'', JStr ''i'')], JObj [(''name'', JStr ''b'')]])])]"

theorem containerSpecs_exact_witness:
  "\<exists>v. container_loc example_pod [''spec'', ''containers''] ''{.spec.containers[0]}'' v \<and> is_container v ''a'' ''i''"
proof -
  have zero: "digits 0 = ''0''" by code_simp
  show ?thesis
  using containerSpecs_exact [OF example_lib_contract, of
      "\<lparr> JSONPath = ''{.spec.containers[0]}'', Name = ''a'', Image = ''i'' \<rparr>" example_pod
      "[[''spec'', ''containers'']]"]
  by (simp add: example_pod_def example_lib_def specsForPath_def spec_of_def opt_cons_def slice_path_def
      Itoa_def zero)
qed

text \<open>No two containers of an object get the same JSONPath, as long as the watched paths are
  different and their segments contain none of the characters the path syntax uses: the JSONPath
  label identifies the container.\<close>

theorem containerSpecs_distinct:
  assumes "list_all clean_path paths" "distinct paths"
  shows "distinct (map JSONPath (containerSpecs L obj paths))"
  by (rule distinct_containerSpecs [OF assms])

theorem containerSpecs_distinct_witness:
  "distinct (map JSONPath (containerSpecs example_lib example_pod [[''spec'', ''containers''], [''spec'', ''x'', ''*'', ''y'']]))"
  by (rule containerSpecs_distinct) (simp_all add: clean_path_def clean_seg_def)

text \<open>The pull secrets of an object are the names of the entries of the lists at the watched
  paths, and its service account is the first non-empty string at one of the watched paths.\<close>

theorem credentials_selected:
  assumes "nested_contract L"
  shows "(n \<in> set (imagePullSecrets L obj paths) \<longleftrightarrow>
      (\<exists>path \<in> set paths. \<exists>xs m. field_at (JObj obj) path = Some (JArr xs) \<and> JObj m \<in> set xs
         \<and> map_of m ''name'' = Some (JStr n)))
   \<and> serviceAccountName L obj sa_paths =
      (case find (\<lambda>path. \<exists>t. field_at (JObj obj) path = Some (JStr t) \<and> t \<noteq> '''') sa_paths of
         None \<Rightarrow> '''' | Some path \<Rightarrow> (case field_at (JObj obj) path of Some (JStr t) \<Rightarrow> t | _ \<Rightarrow> ''''))"
proof
  have secrets: "n \<in> set (secret_names xs) \<longleftrightarrow> (\<exists>m. JObj m \<in> set xs \<and> map_of m ''name'' = Some (JStr n))" for xs
  proof (induction xs)
    case (Cons x xs)
    then show ?case by (cases x) (auto split: option.splits json.splits)
  qed simp
  show "n \<in> set (imagePullSecrets L obj paths) \<longleftrightarrow>
      (\<exists>path \<in> set paths. \<exists>xs m. field_at (JObj obj) path = Some (JArr xs) \<and> JObj m \<in> set xs
         \<and> map_of m ''name'' = Some (JStr n))"
  proof (induction paths)
    case (Cons path paths)
    have "n \<in> set (secret_names (fst (NestedSlice L obj path))) \<longleftrightarrow>
        (\<exists>xs m. field_at (JObj obj) path = Some (JArr xs) \<and> JObj m \<in> set xs \<and> map_of m ''name'' = Some (JStr n))"
      by (cases "field_at (JObj obj) path") (auto simp: secrets contract_slice [OF assms] split: json.split)
    with Cons show ?case by simp
  qed simp
  show "serviceAccountName L obj sa_paths =
      (case find (\<lambda>path. \<exists>t. field_at (JObj obj) path = Some (JStr t) \<and> t \<noteq> '''') sa_paths of
         None \<Rightarrow> '''' | Some path \<Rightarrow> (case field_at (JObj obj) path of Some (JStr t) \<Rightarrow> t | _ \<Rightarrow> ''''))"
  proof (induction sa_paths)
    case (Cons path paths)
    then show ?case
      by (auto simp: contract_string [OF assms] Let_def split: option.splits json.splits)
  qed simp
qed

theorem credentials_selected_witness:
  "''s'' \<in> set (imagePullSecrets example_lib [(''x'', JArr [JObj [(''name'', JStr ''s'')]])] [[''x'']])
   \<and> serviceAccountName example_lib [(''x'', JStr ''''), (''y'', JStr ''sa'')] [[''x''], [''y'']] = ''sa''"
  using credentials_selected [OF example_lib_contract, of "''s''" "[(''x'', JArr [JObj [(''name'', JStr ''s'')]])]" "[[''x'']]" "[]"]
    credentials_selected [OF example_lib_contract, of "''s''" "[(''x'', JStr ''''), (''y'', JStr ''sa'')]" "[]" "[[''x''], [''y'']]"]
  by simp

end
