(* ===== verification/Image_Cache.thy ===== *)
theory Image_Cache
  imports Go_Base
begin

section \<open>The image cache (\<^verbatim>\<open>internal/clusterexporter/cache.go\<close>)\<close>

text \<open>
  The cache the reconcilers fill and the exporter reads. Its two Go maps are association lists:
  the order of the list is the order in which a \<open>range\<close> loop visits the map, which Go leaves
  open; every theorem holds for all orders. The operations run under the cache's mutex, so each is
  one atomic step. \<open>cache_ops\<close> is the Go interface \<open>ContainerImageCache\<close>, the locale
  \<open>image_cache\<close> the contract its users rely on, and \<open>cacheImpl_ops\<close> the implementation.
\<close>

subsection \<open>Image references and cached images\<close>

text \<open>
  A \<open>name.Reference\<close> of go-containerregistry is a tag or a digest reference. The code uses two
  things of it: \<open>String()\<close>, and \<open>DigestStr()\<close> of a digest.
\<close>

datatype reference = TagRef string | DigestRef string string

fun ref_String :: "reference \<Rightarrow> string" where
  "ref_String (TagRef s) = s"
| "ref_String (DigestRef s d) = s"

text \<open>The metadata of an image; a Go map of annotations or labels is the list of its entries in
  the order a \<open>range\<close> loop visits them.\<close>

record ContainerImage =
  Digest :: string
  Annotations :: "(string \<times> string) list"
  Labels :: "(string \<times> string) list"
  Size :: int
  Created :: time

record CachedContainerImage =
  cached_img :: ContainerImage
  CachedTime :: time

subsection \<open>The interface\<close>

record 'c cache_ops =
  op_Get :: "'c \<Rightarrow> reference \<Rightarrow> CachedContainerImage outcome"
  op_Put :: "'c \<Rightarrow> reference \<Rightarrow> ContainerImage option \<Rightarrow> time \<Rightarrow> error option \<times> 'c"
  op_Evict :: "'c \<Rightarrow> reference list \<Rightarrow> time \<Rightarrow> error option \<times> 'c"

subsection \<open>The implementation\<close>

record cacheImpl =
  digestMap :: "(string \<times> string) list"
  imageMap :: "(string \<times> CachedContainerImage) list"

definition NewContainerImageCache :: cacheImpl where
  "NewContainerImageCache = \<lparr> digestMap = [], imageMap = [] \<rparr>"

text \<open>\<open>digestStr\<close> of \<open>Get\<close>: the digest itself for a digest reference, otherwise what the digest
  map holds, or the empty string.\<close>

definition digest_for :: "cacheImpl \<Rightarrow> reference \<Rightarrow> string" where
  "digest_for c ref =
     (case ref of
        DigestRef _ d \<Rightarrow> d
      | TagRef s \<Rightarrow> (case map_of (digestMap c) (ref_String ref) of Some d \<Rightarrow> d | None \<Rightarrow> ''''))"

definition Get :: "cacheImpl \<Rightarrow> reference \<Rightarrow> CachedContainerImage outcome" where
  "Get c ref =
     (let digestStr = digest_for c ref in
      if digestStr = '''' then Err ErrContainerImageNotFound
      else case map_of (imageMap c) digestStr of
             None \<Rightarrow> Err ErrContainerImageNotFound
           | Some img \<Rightarrow> Ok img)"

text \<open>\<open>Put\<close>; the argument \<open>now\<close> is the \<open>time.Now()\<close> it reads.\<close>

definition Put :: "cacheImpl \<Rightarrow> reference \<Rightarrow> ContainerImage option \<Rightarrow> time \<Rightarrow> error option \<times> cacheImpl" where
  "Put c ref img now =
     (case img of
        None \<Rightarrow> (None, c)
      | Some i \<Rightarrow>
          (None, c\<lparr> digestMap := AList.update (ref_String ref) (Digest i) (digestMap c),
                    imageMap := AList.update (Digest i) \<lparr> cached_img = i, CachedTime = now \<rparr> (imageMap c) \<rparr>))"

text \<open>The first loop of \<open>Evict\<close> over the entries of the digest map; its state is the map it deletes
  from and the set \<open>activeDigests\<close>.\<close>

fun evict_refs ::
  "string set \<Rightarrow> time \<Rightarrow> (string \<times> CachedContainerImage) list \<Rightarrow> (string \<times> string) list
     \<Rightarrow> (string \<times> string) list \<times> string set \<Rightarrow> (string \<times> string) list \<times> string set" where
  "evict_refs activeRefs olderThan images [] st = st"
| "evict_refs activeRefs olderThan images ((refStr, digestStr) # rest) (digests, activeDigests) =
     (if refStr \<in> activeRefs then
        evict_refs activeRefs olderThan images rest (digests, insert digestStr activeDigests)
      else
        let protected = (case map_of images digestStr of
                           None \<Rightarrow> False
                         | Some img \<Rightarrow> \<not> Before (CachedTime img) olderThan)
        in if protected then
             evict_refs activeRefs olderThan images rest (digests, insert digestStr activeDigests)
           else
             evict_refs activeRefs olderThan images rest (AList.delete refStr digests, activeDigests))"

text \<open>The second loop, over the entries of the image map.\<close>

fun evict_images ::
  "string set \<Rightarrow> (string \<times> CachedContainerImage) list
     \<Rightarrow> (string \<times> CachedContainerImage) list \<Rightarrow> (string \<times> CachedContainerImage) list" where
  "evict_images activeDigests [] images = images"
| "evict_images activeDigests ((digestStr, _) # rest) images =
     (if digestStr \<in> activeDigests then evict_images activeDigests rest images
      else evict_images activeDigests rest (AList.delete digestStr images))"

definition Evict :: "cacheImpl \<Rightarrow> reference list \<Rightarrow> time \<Rightarrow> error option \<times> cacheImpl" where
  "Evict c refs olderThan =
     (let activeRefs = set (map ref_String refs);
          (digests, activeDigests) =
            evict_refs activeRefs olderThan (imageMap c) (digestMap c) (digestMap c, {})
      in (None, c\<lparr> digestMap := digests,
                   imageMap := evict_images activeDigests (imageMap c) (imageMap c) \<rparr>))"

definition cacheImpl_ops :: "cacheImpl cache_ops" where
  "cacheImpl_ops = \<lparr> op_Get = Get, op_Put = Put, op_Evict = Evict \<rparr>"

declare map_of_eq_Some_iff [simp del] Some_eq_map_of_iff [simp del]

subsection \<open>The invariant\<close>

text \<open>
  Keys are unique (they are maps), every reference leads to a cached image, and an image is
  stored under its own digest.
\<close>

definition cache_inv :: "cacheImpl \<Rightarrow> bool" where
  "cache_inv c \<longleftrightarrow>
     distinct (map fst (digestMap c)) \<and> distinct (map fst (imageMap c))
   \<and> (\<forall>d \<in> snd ` set (digestMap c). d \<in> fst ` set (imageMap c))
   \<and> (\<forall>(d, img) \<in> set (imageMap c). Digest (cached_img img) = d)"

lemma cache_inv_new: "cache_inv NewContainerImageCache"
  by (simp add: cache_inv_def NewContainerImageCache_def)

lemma cache_inv_iff:
  "cache_inv c \<longleftrightarrow>
     distinct (map fst (digestMap c)) \<and> distinct (map fst (imageMap c))
   \<and> (\<forall>r d. map_of (digestMap c) r = Some d \<longrightarrow> (\<exists>img. map_of (imageMap c) d = Some img))
   \<and> (\<forall>d img. map_of (imageMap c) d = Some img \<longrightarrow> Digest (cached_img img) = d)"
proof (cases "distinct (map fst (digestMap c)) \<and> distinct (map fst (imageMap c))")
  case True
  then have "d \<in> snd ` set (digestMap c) \<longleftrightarrow> (\<exists>r. map_of (digestMap c) r = Some d)"
    and "d \<in> fst ` set (imageMap c) \<longleftrightarrow> (\<exists>img. map_of (imageMap c) d = Some img)"
    and "(\<forall>(d, img) \<in> set (imageMap c). Digest (cached_img img) = d) \<longleftrightarrow>
      (\<forall>d img. map_of (imageMap c) d = Some img \<longrightarrow> Digest (cached_img img) = d)" for d
    by (force simp: map_of_eq_Some_iff)+
  with True show ?thesis
    unfolding cache_inv_def Ball_def by auto
next
  case False
  then show ?thesis by (auto simp: cache_inv_def)
qed

lemma cache_inv_digest: "cache_inv c \<Longrightarrow> map_of (imageMap c) d = Some img \<Longrightarrow> Digest (cached_img img) = d"
  by (simp add: cache_inv_iff)

lemma cache_inv_image:
  "cache_inv c \<Longrightarrow> map_of (digestMap c) r = Some d \<Longrightarrow> \<exists>img. map_of (imageMap c) d = Some img"
  by (simp add: cache_inv_iff)

lemma Get_cases: "(\<exists>ci. Get c ref = Ok ci) \<or> Get c ref = Err ErrContainerImageNotFound"
  by (auto simp: Get_def Let_def split: option.splits)

lemma Get_Ok_iff:
  "Get c ref = Ok ci \<longleftrightarrow> digest_for c ref \<noteq> '''' \<and> map_of (imageMap c) (digest_for c ref) = Some ci"
  by (auto simp: Get_def Let_def split: option.splits)

lemma Get_digest: "cache_inv c \<Longrightarrow> Get c ref = Ok ci \<Longrightarrow> Digest (cached_img ci) = digest_for c ref"
  by (simp add: Get_Ok_iff cache_inv_digest)

subsection \<open>Put\<close>

lemma fst_Put [simp]: "fst (Put c ref img now) = None"
  by (simp add: Put_def split: option.splits)

lemma digestMap_Put:
  "map_of (digestMap (snd (Put c ref (Some i) now))) = (map_of (digestMap c))(ref_String ref \<mapsto> Digest i)"
  by (simp add: Put_def update_conv')

lemma imageMap_Put:
  "map_of (imageMap (snd (Put c ref (Some i) now))) =
     (map_of (imageMap c))(Digest i \<mapsto> \<lparr> cached_img = i, CachedTime = now \<rparr>)"
  by (simp add: Put_def update_conv')

lemma cache_inv_Put: "cache_inv c \<Longrightarrow> cache_inv (snd (Put c ref img now))"
proof (cases img)
  case None
  then show "cache_inv c \<Longrightarrow> ?thesis" by (simp add: Put_def)
next
  case (Some i)
  assume "cache_inv c"
  then show ?thesis
    unfolding Some cache_inv_iff digestMap_Put imageMap_Put
    by (auto simp: Put_def distinct_update)
qed

lemma digest_for_Put:
  "digest_for (snd (Put c ref (Some i) now)) r =
     (case r of DigestRef _ d \<Rightarrow> d | TagRef s \<Rightarrow> if s = ref_String ref then Digest i else digest_for c r)"
  by (simp add: digest_for_def digestMap_Put split: reference.splits option.splits)

subsection \<open>Evict\<close>

text \<open>The entries \<open>Evict\<close> keeps: active references, and references whose image was cached at or
  after the cutoff.\<close>

definition kept :: "cacheImpl \<Rightarrow> reference list \<Rightarrow> time \<Rightarrow> string \<Rightarrow> string \<Rightarrow> bool" where
  "kept c refs olderThan refStr digestStr \<longleftrightarrow>
     refStr \<in> ref_String ` set refs
   \<or> (\<exists>img. map_of (imageMap c) digestStr = Some img \<and> olderThan \<le> CachedTime img)"

lemma not_Before: "\<not> Before a b \<longleftrightarrow> b \<le> a"
  by (simp add: Before_def not_less)

text \<open>One entry of the first loop: kept or deleted.\<close>

lemma evict_refs_step:
  "evict_refs (set (map ref_String refs)) olderThan (imageMap c) ((r, d) # rest) (digests, ad) =
     (if kept c refs olderThan r d
      then evict_refs (set (map ref_String refs)) olderThan (imageMap c) rest (digests, insert d ad)
      else evict_refs (set (map ref_String refs)) olderThan (imageMap c) rest (AList.delete r digests, ad))"
  by (auto simp: kept_def not_Before Let_def split: option.splits)

lemma evict_refs_result:
  assumes "distinct (map fst entries)"
  shows "map_of (fst (evict_refs (set (map ref_String refs)) olderThan (imageMap c) entries (digests, ad))) =
       (\<lambda>r. case map_of entries r of
              Some d \<Rightarrow> if kept c refs olderThan r d then map_of digests r else None
            | None \<Rightarrow> map_of digests r)
   \<and> snd (evict_refs (set (map ref_String refs)) olderThan (imageMap c) entries (digests, ad)) =
       ad \<union> {d. \<exists>r. (r, d) \<in> set entries \<and> kept c refs olderThan r d}
   \<and> (distinct (map fst digests) \<longrightarrow> distinct (map fst
        (fst (evict_refs (set (map ref_String refs)) olderThan (imageMap c) entries (digests, ad)))))"
  using assms
proof (induction entries arbitrary: digests ad)
  case Nil
  then show ?case by simp
next
  case (Cons e entries)
  obtain r d where e: "e = (r, d)" by (cases e)
  with Cons.prems have "map_of entries r = None" by (force simp: map_of_eq_None_iff)
  with Cons e show ?case
    unfolding e evict_refs_step
    by (auto simp: fun_eq_iff delete_conv' distinct_delete split: option.splits)
qed

lemma evict_images_result:
  "map_of (evict_images ad entries images) =
     (\<lambda>d. if d \<in> fst ` set entries \<and> d \<notin> ad then None else map_of images d)
   \<and> (distinct (map fst images) \<longrightarrow> distinct (map fst (evict_images ad entries images)))"
proof (induction entries arbitrary: images)
  case Nil
  then show ?case by simp
next
  case (Cons e entries)
  obtain d i where e: "e = (d, i)" by (cases e)
  from Cons show ?case
    by (auto simp: e fun_eq_iff delete_conv' distinct_delete)
qed

lemma evict_images_self:
  "map_of (evict_images ad images images) d = (if d \<in> ad then map_of images d else None)"
proof (cases "d \<in> fst ` set images")
  case True
  then show ?thesis by (simp add: evict_images_result)
next
  case False
  then have "map_of images d = None" by (simp add: map_of_eq_None_iff)
  with False show ?thesis by (simp add: evict_images_result)
qed

lemma fst_Evict [simp]: "fst (Evict c refs olderThan) = None"
  by (simp add: Evict_def Let_def split: prod.splits)

text \<open>The digests that stay referenced.\<close>

definition live :: "cacheImpl \<Rightarrow> reference list \<Rightarrow> time \<Rightarrow> string \<Rightarrow> bool" where
  "live c refs olderThan d \<longleftrightarrow> (\<exists>r. map_of (digestMap c) r = Some d \<and> kept c refs olderThan r d)"

lemma digestMap_Evict:
  assumes "cache_inv c"
  shows "map_of (digestMap (snd (Evict c refs olderThan))) r =
     (case map_of (digestMap c) r of
        Some d \<Rightarrow> if kept c refs olderThan r d then Some d else None
      | None \<Rightarrow> None)"
  using assms evict_refs_result [of "digestMap c" refs olderThan c "digestMap c" "{}"]
  by (auto simp: Evict_def Let_def cache_inv_def split: prod.splits option.splits)

lemma imageMap_Evict:
  assumes "cache_inv c"
  shows "map_of (imageMap (snd (Evict c refs olderThan))) d =
     (if live c refs olderThan d then map_of (imageMap c) d else None)"
proof -
  have "distinct (map fst (digestMap c))" using assms by (simp add: cache_inv_def)
  then have "snd (evict_refs (set (map ref_String refs)) olderThan (imageMap c) (digestMap c) (digestMap c, {}))
      = {d. live c refs olderThan d}"
    using evict_refs_result [of "digestMap c" refs olderThan c "digestMap c" "{}"]
    by (simp add: live_def map_of_eq_Some_iff)
  then show ?thesis
    by (auto simp: Evict_def Let_def evict_images_self split: prod.splits)
qed

lemma cache_inv_Evict:
  assumes "cache_inv c"
  shows "cache_inv (snd (Evict c refs olderThan))"
proof -
  have d1: "distinct (map fst (digestMap (snd (Evict c refs olderThan))))"
    using assms evict_refs_result [of "digestMap c" refs olderThan c "digestMap c" "{}"]
    by (auto simp: Evict_def Let_def cache_inv_def split: prod.splits)
  have d2: "distinct (map fst (imageMap (snd (Evict c refs olderThan))))"
    using assms evict_images_result [of _ "imageMap c" "imageMap c"]
    by (auto simp: Evict_def Let_def cache_inv_def split: prod.splits)
  have "\<exists>img. map_of (imageMap (snd (Evict c refs olderThan))) d = Some img"
    if "map_of (digestMap (snd (Evict c refs olderThan))) r = Some d" for r d
    using that cache_inv_image [OF assms, of r d]
    by (auto simp: digestMap_Evict [OF assms] imageMap_Evict [OF assms] live_def
        split: option.splits if_splits)
  then show ?thesis
    using d1 d2 assms unfolding cache_inv_iff [of "snd _"]
    by (auto simp: imageMap_Evict [OF assms] dest: cache_inv_digest split: if_splits)
qed

subsection \<open>What a reader sees\<close>

lemma digest_for_digest [simp]: "digest_for c (DigestRef s d) = d"
  by (simp add: digest_for_def)

lemma Get_Put:
  assumes "cache_inv c"
  shows "Get (snd (Put c ref (Some i) now)) r =
     (if (case r of DigestRef _ d \<Rightarrow> d = Digest i | TagRef s \<Rightarrow> s = ref_String ref \<or> digest_for c r = Digest i)
      then if Digest i = '''' then Err ErrContainerImageNotFound
           else Ok \<lparr> cached_img = i, CachedTime = now \<rparr>
      else Get c r)"
  by (cases r) (auto simp: Get_def Let_def digest_for_Put imageMap_Put)

lemma live_owned:
  "map_of (digestMap c) r = Some d \<Longrightarrow> kept c refs olderThan r d \<Longrightarrow> live c refs olderThan d"
  by (auto simp: live_def)

lemma Get_Evict_tag:
  assumes inv: "cache_inv c"
  shows "Get (snd (Evict c refs olderThan)) (TagRef s) =
     (case Get c (TagRef s) of
        Ok ci \<Rightarrow> if s \<in> ref_String ` set refs \<or> olderThan \<le> CachedTime ci then Ok ci
                 else Err ErrContainerImageNotFound
      | _ \<Rightarrow> Err ErrContainerImageNotFound)"
proof (cases "map_of (digestMap c) s")
  case None
  then show ?thesis
    by (simp add: Get_def Let_def digest_for_def digestMap_Evict [OF inv])
next
  case (Some d)
  then obtain img where img: "map_of (imageMap c) d = Some img"
    using cache_inv_image [OF inv] by blast
  have kept: "kept c refs olderThan s d \<longleftrightarrow> s \<in> ref_String ` set refs \<or> olderThan \<le> CachedTime img"
    by (simp add: kept_def img)
  show ?thesis
    using live_owned [OF Some]
    by (auto simp: Get_def Let_def digest_for_def digestMap_Evict [OF inv] imageMap_Evict [OF inv]
        Some img kept)
qed

lemma Get_Evict_digest:
  assumes "cache_inv c"
  shows "Get (snd (Evict c refs olderThan)) (DigestRef s d) =
     (if live c refs olderThan d then Get c (DigestRef s d) else Err ErrContainerImageNotFound)"
  by (simp add: Get_def Let_def digest_for_def imageMap_Evict [OF assms])

lemma Get_Evict_Ok:
  assumes "cache_inv c" "Get (snd (Evict c refs olderThan)) ref = Ok ci"
  shows "Get c ref = Ok ci"
  using assms by (cases ref) (auto simp: Get_Evict_tag Get_Evict_digest split: outcome.splits if_splits)

text \<open>A reference the reconciler itself has put keeps its image, tag or digest.\<close>

definition owned_by :: "cacheImpl \<Rightarrow> reference \<Rightarrow> bool" where
  "owned_by c ref \<longleftrightarrow> map_of (digestMap c) (ref_String ref) = Some (digest_for c ref)"

lemma Get_Evict_owned:
  assumes inv: "cache_inv c" and get: "Get c ref = Ok ci" and owned: "owned_by c ref"
    and keep: "ref \<in> set refs \<or> olderThan \<le> CachedTime ci"
  shows "Get (snd (Evict c refs olderThan)) ref = Ok ci"
proof (cases ref)
  case (TagRef s)
  with get keep show ?thesis by (force simp: Get_Evict_tag [OF inv])
next
  case (DigestRef s d)
  with get have d: "map_of (imageMap c) d = Some ci"
    by (simp add: Get_Ok_iff)
  have "kept c refs olderThan s d"
    using keep d DigestRef by (force simp: kept_def)
  with owned DigestRef have "live c refs olderThan d"
    using live_owned by (simp add: owned_by_def)
  with get DigestRef show ?thesis by (simp add: Get_Evict_digest [OF inv])
qed

lemma Evict_no_orphans:
  assumes "cache_inv c" "map_of (imageMap (snd (Evict c refs olderThan))) d = Some img"
  shows "\<exists>r. map_of (digestMap (snd (Evict c refs olderThan))) r = Some d"
proof -
  from assms obtain r where "map_of (digestMap c) r = Some d" "kept c refs olderThan r d"
    by (auto simp: imageMap_Evict live_def split: if_splits)
  then have "map_of (digestMap (snd (Evict c refs olderThan))) r = Some d"
    using assms(1) by (simp add: digestMap_Evict)
  then show ?thesis ..
qed

subsection \<open>The contract of the interface\<close>

text \<open>
  What a user of \<open>ContainerImageCache\<close> may rely on. \<open>inv\<close> is whatever the provider keeps true
  of its state, and \<open>owns c ref\<close> says that the entry of \<open>ref\<close> was put under this very reference
  (for a digest reference the image may have come in under another name).
\<close>

locale image_cache =
  fixes ops :: "'c cache_ops"
    and inv :: "'c \<Rightarrow> bool"
    and owns :: "'c \<Rightarrow> reference \<Rightarrow> bool"
  assumes put_ok: "fst (op_Put ops c ref img now) = None"
    and evict_ok: "fst (op_Evict ops c refs olderThan) = None"
    and put_inv: "inv c \<Longrightarrow> inv (snd (op_Put ops c ref img now))"
    and evict_inv: "inv c \<Longrightarrow> inv (snd (op_Evict ops c refs olderThan))"
    and get_total: "(\<exists>ci. op_Get ops c ref = Ok ci) \<or> op_Get ops c ref = Err ErrContainerImageNotFound"
    and get_put_same: "inv c \<Longrightarrow> Digest i \<noteq> '''' \<Longrightarrow> (\<And>s d. ref = DigestRef s d \<Longrightarrow> d = Digest i) \<Longrightarrow>
      op_Get ops (snd (op_Put ops c ref (Some i) now)) ref = Ok \<lparr> cached_img = i, CachedTime = now \<rparr>"
    and get_put_other: "inv c \<Longrightarrow> Digest i \<noteq> '''' \<Longrightarrow> op_Get ops c r = Ok ci \<Longrightarrow> ref_String r \<noteq> ref_String ref \<Longrightarrow>
      op_Get ops (snd (op_Put ops c ref (Some i) now)) r
        \<in> {Ok ci, Ok \<lparr> cached_img = i, CachedTime = now \<rparr>}"
    and put_owns: "inv c \<Longrightarrow> (\<And>s d. ref = DigestRef s d \<Longrightarrow> d = Digest i) \<Longrightarrow>
      owns (snd (op_Put ops c ref (Some i) now)) ref"
    and put_owns_other: "inv c \<Longrightarrow> owns c r \<Longrightarrow> ref_String r \<noteq> ref_String ref \<Longrightarrow>
      owns (snd (op_Put ops c ref (Some i) now)) r"
    and get_evict_keep: "inv c \<Longrightarrow> op_Get ops c ref = Ok ci \<Longrightarrow> owns c ref \<Longrightarrow>
      ref \<in> set refs \<or> olderThan \<le> CachedTime ci \<Longrightarrow>
      op_Get ops (snd (op_Evict ops c refs olderThan)) ref = Ok ci"
    and get_evict_only: "inv c \<Longrightarrow> op_Get ops (snd (op_Evict ops c refs olderThan)) ref = Ok ci \<Longrightarrow>
      op_Get ops c ref = Ok ci"
    and tag_owns: "inv c \<Longrightarrow> op_Get ops c (TagRef s) = Ok ci \<Longrightarrow> owns c (TagRef s)"
begin

lemma get_missing: "(\<And>ci. op_Get ops c ref \<noteq> Ok ci) \<Longrightarrow> op_Get ops c ref = Err ErrContainerImageNotFound"
  using get_total by blast

lemma get_put_nonempty:
  assumes "inv c" "Digest i \<noteq> ''''" "op_Get ops c r = Ok ci" "ref_String r \<noteq> ref_String ref"
  shows "\<exists>ci'. op_Get ops (snd (op_Put ops c ref (Some i) now)) r = Ok ci'"
  using get_put_other [OF assms, of now] by auto

lemma active_survives_evict:
  "inv c \<Longrightarrow> op_Get ops c (TagRef s) = Ok ci \<Longrightarrow> TagRef s \<in> set refs \<Longrightarrow>
     op_Get ops (snd (op_Evict ops c refs olderThan)) (TagRef s) = Ok ci"
  using get_evict_keep tag_owns by blast

end


text \<open>\<open>cacheImpl\<close> keeps the contract.\<close>

lemma owned_by_Put:
  "(\<And>s d. ref = DigestRef s d \<Longrightarrow> d = Digest i) \<Longrightarrow> owned_by (snd (Put c ref (Some i) now)) ref"
  by (cases ref) (simp_all add: owned_by_def digestMap_Put digest_for_Put)

lemma owned_by_Put_other:
  "owned_by c r \<Longrightarrow> ref_String r \<noteq> ref_String ref \<Longrightarrow> owned_by (snd (Put c ref (Some i) now)) r"
  by (cases r) (simp_all add: owned_by_def digestMap_Put digest_for_Put)

lemma owned_by_tag: "Get c (TagRef s) = Ok ci \<Longrightarrow> owned_by c (TagRef s)"
  by (auto simp: owned_by_def Get_Ok_iff digest_for_def split: option.splits)

lemma Get_Put_same:
  assumes "cache_inv c" "Digest i \<noteq> ''''" "\<And>s d. ref = DigestRef s d \<Longrightarrow> d = Digest i"
  shows "Get (snd (Put c ref (Some i) now)) ref = Ok \<lparr> cached_img = i, CachedTime = now \<rparr>"
  using assms by (cases ref) (simp_all add: Get_Put)

interpretation cache_impl: image_cache cacheImpl_ops cache_inv owned_by
  by unfold_locales
    (auto simp: cacheImpl_ops_def cache_inv_Put cache_inv_Evict Get_cases Get_Put_same
        Get_Put Get_Evict_owned owned_by_Put owned_by_Put_other owned_by_tag
      dest: Get_Evict_Ok)

subsection \<open>Refinement: the cache is a map from references to images\<close>

text \<open>
  The abstract cache: a map from tag references to the cached image. \<open>spec_put\<close> stores an image
  under a reference and refreshes every reference that has the same digest; \<open>spec_evict\<close> keeps the
  active references and the recent entries. \<open>cache_view\<close> reads it off the implementation.
\<close>

type_synonym spec_cache = "string \<rightharpoonup> CachedContainerImage"

definition spec_put :: "spec_cache \<Rightarrow> reference \<Rightarrow> ContainerImage option \<Rightarrow> time \<Rightarrow> spec_cache" where
  "spec_put m ref img now =
     (case img of
        None \<Rightarrow> m
      | Some i \<Rightarrow>
          (\<lambda>s. if s = ref_String ref then
                 (if Digest i = '''' then None else Some \<lparr> cached_img = i, CachedTime = now \<rparr>)
               else case m s of
                 None \<Rightarrow> None
               | Some ci \<Rightarrow> Some (if Digest (cached_img ci) = Digest i
                                 then \<lparr> cached_img = i, CachedTime = now \<rparr> else ci)))"

definition spec_evict :: "spec_cache \<Rightarrow> reference list \<Rightarrow> time \<Rightarrow> spec_cache" where
  "spec_evict m refs olderThan =
     (\<lambda>s. case m s of
        None \<Rightarrow> None
      | Some ci \<Rightarrow> if s \<in> ref_String ` set refs \<or> olderThan \<le> CachedTime ci then Some ci else None)"

definition cache_view :: "cacheImpl \<Rightarrow> spec_cache" where
  "cache_view c = (\<lambda>s. case Get c (TagRef s) of Ok ci \<Rightarrow> Some ci | _ \<Rightarrow> None)"

lemma cache_view_Put: "cache_inv c \<Longrightarrow> cache_view (snd (Put c ref img now)) = spec_put (cache_view c) ref img now"
proof (cases img)
  case None
  then show ?thesis by (simp add: Put_def spec_put_def)
next
  case (Some i)
  assume inv: "cache_inv c"
  show ?thesis
  proof
    fix s
    have "Digest (cached_img ci) = digest_for c (TagRef s)" if "Get c (TagRef s) = Ok ci" for ci
      using Get_digest [OF inv that] .
    moreover have "digest_for c (TagRef s) = Digest i \<Longrightarrow> Digest i \<noteq> '''' \<Longrightarrow> \<exists>ci. Get c (TagRef s) = Ok ci"
      using cache_inv_image [OF inv, of s "Digest i"]
      by (auto simp: Get_Ok_iff digest_for_def split: option.splits)
    moreover have "digest_for c (TagRef s) = '''' \<Longrightarrow> Get c (TagRef s) = Err ErrContainerImageNotFound"
      by (simp add: Get_def)
    ultimately show "cache_view (snd (Put c ref img now)) s = spec_put (cache_view c) ref img now s"
      by (cases "Get c (TagRef s)") (auto simp: cache_view_def spec_put_def Some Get_Put [OF inv])
  qed
qed

lemma cache_view_Evict:
  "cache_inv c \<Longrightarrow> cache_view (snd (Evict c refs t)) = spec_evict (cache_view c) refs t"
  by (auto simp: fun_eq_iff cache_view_def spec_evict_def Get_Evict_tag split: outcome.splits)

text \<open>Operations in the order the mutex serialises them.\<close>

datatype cache_event = EvPut reference "ContainerImage option" time | EvEvict "reference list" time

fun cache_step :: "cacheImpl \<Rightarrow> cache_event \<Rightarrow> cacheImpl" where
  "cache_step c (EvPut ref img now) = snd (Put c ref img now)"
| "cache_step c (EvEvict refs olderThan) = snd (Evict c refs olderThan)"

fun spec_step :: "spec_cache \<Rightarrow> cache_event \<Rightarrow> spec_cache" where
  "spec_step m (EvPut ref img now) = spec_put m ref img now"
| "spec_step m (EvEvict refs olderThan) = spec_evict m refs olderThan"

definition cache_run :: "cacheImpl \<Rightarrow> cache_event list \<Rightarrow> cacheImpl" where
  "cache_run c evs = foldl cache_step c evs"

definition spec_run :: "spec_cache \<Rightarrow> cache_event list \<Rightarrow> spec_cache" where
  "spec_run m evs = foldl spec_step m evs"

lemma cache_step_inv: "cache_inv c \<Longrightarrow> cache_inv (cache_step c e)"
  by (cases e) (simp_all add: cache_inv_Put cache_inv_Evict)

lemma cache_step_view: "cache_inv c \<Longrightarrow> cache_view (cache_step c e) = spec_step (cache_view c) e"
  by (cases e) (simp_all add: cache_view_Put cache_view_Evict)

lemma cache_run_inv: "cache_inv c \<Longrightarrow> cache_inv (cache_run c evs)"
  by (induction evs arbitrary: c) (simp_all add: cache_run_def cache_step_inv)

lemma cache_run_view: "cache_inv c \<Longrightarrow> cache_view (cache_run c evs) = spec_run (cache_view c) evs"
  by (induction evs arbitrary: c) (simp_all add: cache_run_def spec_run_def cache_step_inv cache_step_view)

lemma cache_view_new: "cache_view NewContainerImageCache = Map.empty"
  by (simp add: cache_view_def Get_def digest_for_def NewContainerImageCache_def fun_eq_iff)

subsection \<open>The order of the range loops\<close>

text \<open>Two representations of the same Go maps: permuted entry lists.\<close>

definition same_maps :: "cacheImpl \<Rightarrow> cacheImpl \<Rightarrow> bool" where
  "same_maps c c' \<longleftrightarrow>
     map_of (digestMap c) = map_of (digestMap c') \<and> map_of (imageMap c) = map_of (imageMap c')"

lemma same_maps_Evict:
  assumes "cache_inv c" "cache_inv c'" "same_maps c c'"
  shows "same_maps (snd (Evict c refs olderThan)) (snd (Evict c' refs olderThan))"
  using assms(3)
  by (auto simp: same_maps_def fun_eq_iff digestMap_Evict assms imageMap_Evict live_def kept_def
      split: option.splits)


subsection \<open>Properties\<close>


text \<open>An image put under a reference is what the next lookup of that reference gives, with the
  time of the \<open>Put\<close>, also for a digest reference when the image has that digest; and no \<open>Put\<close> of
  another reference makes a cached reference unreadable.\<close>

theorem get_after_put:
  assumes "cache_inv c" "Digest i \<noteq> ''''" "case ref of TagRef s \<Rightarrow> True | DigestRef s d \<Rightarrow> d = Digest i"
  shows "Get (snd (Put c ref (Some i) now)) ref = Ok \<lparr> cached_img = i, CachedTime = now \<rparr>
   \<and> (is_Ok (Get c r) \<and> ref_String r \<noteq> ref_String ref \<longrightarrow> is_Ok (Get (snd (Put c ref (Some i) now)) r))"
proof -
  have d: "\<And>s d. ref = DigestRef s d \<Longrightarrow> d = Digest i" using assms(3) by simp
  show ?thesis
    using Get_Put_same [OF assms(1,2) d] assms(2)
    by (cases "Get c r"; cases r) (simp_all add: Get_Put [OF assms(1)] split: if_split)
qed

definition example_img :: "string \<Rightarrow> ContainerImage" where
  "example_img d = \<lparr> Digest = d, Annotations = [], Labels = [], Size = 1, Created = At 0 \<rparr>"

theorem get_after_put_witness:
  "Get (snd (Put NewContainerImageCache (DigestRef ''r'' ''d'') (Some (example_img ''d'')) (At 5))) (DigestRef ''r'' ''d'')
     = Ok \<lparr> cached_img = example_img ''d'', CachedTime = At 5 \<rparr>"
  using get_after_put [OF cache_inv_new, of "example_img ''d''" "DigestRef ''r'' ''d''" "At 5"]
  by (simp add: example_img_def)

text \<open>C18. \<open>Evict\<close> is exact on tags, whatever order the two maps are visited in: a tag stays readable,
  with the same image, iff it was readable and is active or its image was cached at or after the
  cutoff. What a reconciler caches while a scrape is running therefore survives that scrape.\<close>

theorem evict_exact:
  assumes "cache_inv c"
  shows "Get (snd (Evict c refs olderThan)) (TagRef s) = Ok ci \<longleftrightarrow>
     Get c (TagRef s) = Ok ci \<and> (s \<in> ref_String ` set refs \<or> olderThan \<le> CachedTime ci)"
  by (auto simp: Get_Evict_tag [OF assms] split: outcome.splits if_splits)

definition example_cache :: cacheImpl where
  "example_cache =
     \<lparr> digestMap = [(''old'', ''d1''), (''new'', ''d2'')],
       imageMap = [(''d1'', \<lparr> cached_img = example_img ''d1'', CachedTime = At 1 \<rparr>),
                   (''d2'', \<lparr> cached_img = example_img ''d2'', CachedTime = At 9 \<rparr>)] \<rparr>"

lemma example_cache_inv: "cache_inv example_cache"
  by (simp add: cache_inv_def example_cache_def example_img_def)

theorem evict_exact_witness:
  "\<not> is_Ok (Get (snd (Evict example_cache [] (At 5))) (TagRef ''old''))
   \<and> is_Ok (Get (snd (Evict example_cache [] (At 5))) (TagRef ''new''))"
  using evict_exact [OF example_cache_inv, of "[]" "At 5" "''old''"]
    evict_exact [OF example_cache_inv, of "[]" "At 5" "''new''"
      "\<lparr> cached_img = example_img ''d2'', CachedTime = At 9 \<rparr>"]
  by (cases "Get (snd (Evict example_cache [] (At 5))) (TagRef ''old'')")
    (auto simp: example_cache_def Get_def digest_for_def less_eq_time_def)

text \<open>\<open>Evict\<close> leaves no orphans, so the cache cannot grow past what workloads use: every image it
  keeps is that of some reference it keeps, and every such reference is active or recent.\<close>

theorem evict_bounds_cache:
  assumes "cache_inv c" "map_of (imageMap (snd (Evict c refs olderThan))) d = Some ci"
  shows "\<exists>r. map_of (digestMap (snd (Evict c refs olderThan))) r = Some d
     \<and> (r \<in> ref_String ` set refs \<or> olderThan \<le> CachedTime ci)"
proof -
  obtain r where r: "map_of (digestMap (snd (Evict c refs olderThan))) r = Some d"
    using Evict_no_orphans [OF assms] by blast
  then have "kept c refs olderThan r d"
    by (simp add: digestMap_Evict [OF assms(1)] split: option.splits if_splits)
  moreover have "map_of (imageMap c) d = Some ci"
    using assms(2) by (simp add: imageMap_Evict [OF assms(1)] split: if_splits)
  ultimately show ?thesis using r by (auto simp: kept_def)
qed

theorem evict_bounds_cache_witness:
  "\<exists>r. map_of (digestMap (snd (Evict example_cache [] (At 5)))) r = Some ''d2''
     \<and> (r \<in> ref_String ` set [] \<or> At 5 \<le> At 9)"
proof -
  have "map_of (imageMap (snd (Evict example_cache [] (At 5)))) ''d2'' =
      Some \<lparr> cached_img = example_img ''d2'', CachedTime = At 9 \<rparr>"
    by (simp add: Evict_def example_cache_def Before_def less_time_def Let_def)
  from evict_bounds_cache [OF example_cache_inv this] show ?thesis by simp
qed

text \<open>C19. An image in use can be evicted: when a workload names it by digest but the only entries of
  that digest came in under other references, which are no longer in use and old, \<open>Evict\<close> drops it
  although its reference is active.\<close>

theorem active_digest_evicted:
  assumes "cache_inv c" "Get c (DigestRef s d) = Ok ci" "CachedTime ci < olderThan"
    and "\<forall>r. map_of (digestMap c) r = Some d \<longrightarrow> r \<notin> ref_String ` set (DigestRef s d # refs)"
  shows "Get (snd (Evict c (DigestRef s d # refs) olderThan)) (DigestRef s d) = Err ErrContainerImageNotFound"
proof -
  have "map_of (imageMap c) d = Some ci" using assms(2) by (simp add: Get_Ok_iff)
  with assms(3,4) have "\<not> live c (DigestRef s d # refs) olderThan d"
    by (auto simp: live_def kept_def)
  then show ?thesis by (simp add: Get_Evict_digest [OF assms(1)])
qed

theorem active_digest_evicted_witness:
  "is_Ok (Get example_cache (DigestRef ''repo'' ''d1''))
   \<and> Get (snd (Evict example_cache [DigestRef ''repo'' ''d1''] (At 5))) (DigestRef ''repo'' ''d1'')
      = Err ErrContainerImageNotFound"
proof
  have get: "Get example_cache (DigestRef ''repo'' ''d1'') = Ok \<lparr> cached_img = example_img ''d1'', CachedTime = At 1 \<rparr>"
    by (simp add: Get_def example_cache_def)
  then show "is_Ok (Get example_cache (DigestRef ''repo'' ''d1''))" by simp
  show "Get (snd (Evict example_cache [DigestRef ''repo'' ''d1''] (At 5))) (DigestRef ''repo'' ''d1'')
      = Err ErrContainerImageNotFound"
    by (rule active_digest_evicted [OF example_cache_inv get])
      (auto simp: less_time_def example_cache_def split: if_splits)
qed

text \<open>The order in which Go ranges over the maps cannot be seen: from two representations of the
  same two maps, \<open>Evict\<close> leaves two representations of the same two maps.\<close>

theorem evict_order_irrelevant:
  assumes "cache_inv c" "cache_inv c'" "same_maps c c'"
  shows "same_maps (snd (Evict c refs olderThan)) (snd (Evict c' refs olderThan))
   \<and> Get (snd (Evict c refs olderThan)) ref = Get (snd (Evict c' refs olderThan)) ref"
  using same_maps_Evict [OF assms, of refs olderThan]
  by (cases ref) (simp_all add: same_maps_def Get_def digest_for_def Let_def)

theorem evict_order_irrelevant_witness:
  "Get (snd (Evict example_cache [] (At 5))) (TagRef ''new'') =
   Get (snd (Evict (example_cache\<lparr> digestMap := rev (digestMap example_cache) \<rparr>) [] (At 5))) (TagRef ''new'')"
proof -
  have "cache_inv (example_cache\<lparr> digestMap := rev (digestMap example_cache) \<rparr>)"
    by (simp add: cache_inv_def example_cache_def example_img_def)
  moreover have "same_maps example_cache (example_cache\<lparr> digestMap := rev (digestMap example_cache) \<rparr>)"
    by (auto simp: same_maps_def example_cache_def fun_eq_iff)
  ultimately show ?thesis using evict_order_irrelevant [OF example_cache_inv] by blast
qed

end
