(* ===== verification/Reconciler.thy ===== *)
theory Reconciler
  imports Container_Specs Image_Cache "HOL-Library.Sublist"
begin

section \<open>The image reconciler (\<^verbatim>\<open>internal/clusterexporter/reconciler.go\<close>)\<close>

text \<open>
  \<open>Reconcile\<close> reads one Kubernetes object, fetches the metadata of every image its containers name
  and puts it into the cache. What is outside the repository is the record \<open>env\<close>, a parameter: the
  API server, go-containerregistry, the credential helpers, the random source, the clock and the
  other goroutines that share the singleflight group. An operation that asks the environment takes
  the next number of the counter \<open>ticks\<close>, so the environment may answer differently every time.
  \<open>requests\<close> records the references asked of a registry, for the statements only.
\<close>

subsection \<open>Values of go-containerregistry and the credential libraries\<close>

text \<open>A platform is only ever compared, by the library's \<open>Equals\<close>; it stays the type \<open>'p\<close>.\<close>

record v1_Manifest =
  ConfigSize :: int
  LayerSizes :: "int list"
  ManifestAnnotations :: "(string \<times> string) list"

record v1_ConfigFile =
  ConfigLabels :: "(string \<times> string) list"
  ConfigCreated :: time

record v1_Image =
  img_Manifest :: "v1_Manifest outcome"
  img_ConfigFile :: "v1_ConfigFile outcome"

record 'p index_entry =
  entry_Digest :: string
  entry_Platform :: "'p option"

record 'p v1_Index =
  IndexManifest :: "'p index_entry list outcome"
  index_Image :: "string \<Rightarrow> v1_Image outcome"

record 'p remote_Descriptor =
  MediaType :: string
  desc_Digest :: string
  desc_ImageIndex :: "'p v1_Index outcome"
  desc_Image :: "v1_Image outcome"

definition OCIImageIndex :: string where
  "OCIImageIndex = ''application/vnd.oci.image.index.v1+json''"

definition DockerManifestList :: string where
  "DockerManifestList = ''application/vnd.docker.distribution.manifest.list.v2+json''"

record k8schain_Options =
  opt_Namespace :: string
  opt_ServiceAccountName :: string
  opt_ImagePullSecrets :: "string list"

datatype keychain =
    DefaultKeychain | googleKeychain | amazonKeychain | azureKeychain
  | k8sKeychain k8schain_Options
  | pullSecretKeychain
  | MultiKeychain "keychain list"

text \<open>The options of \<open>remote.Get\<close>; a transport is a handle, and of the context only the timeout
  the code puts on it matters.\<close>

datatype remote_option = WithAuthFromKeychain keychain | WithTransport nat | WithContext "duration option"

record GVK =
  Group :: string
  Version :: string
  Kind :: string

type_synonym NamespacedName = "string \<times> string"

record 'p env =
  time_Now :: "nat \<Rightarrow> time"
  rand_draw :: "nat \<Rightarrow> int"
  ParseReference :: "string \<Rightarrow> reference outcome"
  remote_Get :: "nat \<Rightarrow> reference \<Rightarrow> remote_option list \<Rightarrow> 'p remote_Descriptor outcome"
  platform_Equals :: "'p option \<Rightarrow> 'p \<Rightarrow> bool option"
  k8schain_New :: "nat \<Rightarrow> k8schain_Options \<Rightarrow> keychain outcome"
  client_Get :: "nat \<Rightarrow> GVK \<Rightarrow> NamespacedName \<Rightarrow> json_obj outcome"
  inflight_peer :: "nat \<Rightarrow> string \<Rightarrow> ContainerImage outcome option"
  obj_lib :: unstructured_lib

text \<open>
  \<open>platform_Equals\<close> is \<open>None\<close> where the call panics; \<open>inflight_peer n key\<close> is \<open>Some r\<close> when another
  goroutine is already fetching \<open>key\<close>, and \<open>r\<close> is then what its call returned.
\<close>

record 'c world =
  cache :: 'c
  ticks :: nat
  requests :: "reference list"

definition tick :: "'c world \<Rightarrow> 'c world" where
  "tick w = w\<lparr> ticks := Suc (ticks w) \<rparr>"

lemma tick_simps [simp]:
  "cache (tick w) = cache w" "requests (tick w) = requests w" "ticks (tick w) = Suc (ticks w)"
  by (simp_all add: tick_def)

subsection \<open>The reconciler\<close>

record ('c, 'p) ContainerImageReconciler =
  GroupVersionKind :: GVK
  ContainerPaths :: "string list list"
  ImagePullSecretPaths :: "string list list"
  ServiceAccountNamePaths :: "string list list"
  Cache :: "'c cache_ops option"
  CacheDuration :: duration
  Platform :: "'p option"
  K8sKeychain :: bool
  StaticKeychain :: "keychain option"
  Transport :: "nat option"
  Inflight :: bool
  RegistryTimeout :: duration

text \<open>\<open>rand.Int64N(n)\<close> panics unless \<open>n\<close> is positive, and otherwise returns some number below it;
  Go divides towards zero, which for the positive \<open>d\<close> of this branch is \<open>div\<close>.\<close>

definition rand_Int64N :: "int \<Rightarrow> int \<Rightarrow> int outcome" where
  "rand_Int64N draw n = (if n \<le> 0 then Panic else Ok (draw mod n))"

definition addJitter :: "int \<Rightarrow> duration \<Rightarrow> duration outcome" where
  "addJitter draw d =
     (if d \<le> 0 then Ok d
      else let maxJitter = d div 6
           in case rand_Int64N draw maxJitter of
                Ok jitter \<Rightarrow> Ok (int64 (d + jitter))
              | Err e \<Rightarrow> Err e
              | Panic \<Rightarrow> Panic)"

text \<open>The loop over the manifests of an index that looks for the configured platform.\<close>

fun find_platform :: "('p option \<Rightarrow> 'p \<Rightarrow> bool option) \<Rightarrow> 'p \<Rightarrow> 'p index_entry list \<Rightarrow> 'p index_entry option outcome" where
  "find_platform equals platform [] = Ok None"
| "find_platform equals platform (manifest # manifests) =
     (case equals (entry_Platform manifest) platform of
        None \<Rightarrow> Panic
      | Some True \<Rightarrow> Ok (Some manifest)
      | Some False \<Rightarrow> find_platform equals platform manifests)"

definition resolveImageFromDescriptor ::
  "('p option \<Rightarrow> 'p \<Rightarrow> bool option) \<Rightarrow> 'p remote_Descriptor \<Rightarrow> 'p option \<Rightarrow> v1_Image outcome" where
  "resolveImageFromDescriptor equals desc platform =
     (if MediaType desc = OCIImageIndex \<or> MediaType desc = DockerManifestList then
        (case wrap ''fetching index'' (desc_ImageIndex desc) of
           Err e \<Rightarrow> Err e | Panic \<Rightarrow> Panic
         | Ok idx \<Rightarrow>
           (case wrap ''fetching manifest'' (IndexManifest idx) of
              Err e \<Rightarrow> Err e | Panic \<Rightarrow> Panic
            | Ok [] \<Rightarrow> Err (External ''no manifests in index'')
            | Ok (first # rest) \<Rightarrow>
              (case (case platform of
                       None \<Rightarrow> Ok None
                     | Some p \<Rightarrow> find_platform equals p (first # rest)) of
                 Err e \<Rightarrow> Err e | Panic \<Rightarrow> Panic
               | Ok (Some manifest) \<Rightarrow> index_Image idx (entry_Digest manifest)
               | Ok None \<Rightarrow> index_Image idx (entry_Digest first))))
      else desc_Image desc)"

text \<open>The pure part of \<open>fetchImage\<close>: from the registry's descriptor to a \<open>ContainerImage\<close>. The size is
  a sum of 64-bit integers.\<close>

definition image_size :: "v1_Manifest \<Rightarrow> int" where
  "image_size manifest = foldl (\<lambda>sz layer. int64 (sz + layer)) (ConfigSize manifest) (LayerSizes manifest)"

definition describe_image ::
  "('p option \<Rightarrow> 'p \<Rightarrow> bool option) \<Rightarrow> 'p option \<Rightarrow> 'p remote_Descriptor \<Rightarrow> ContainerImage outcome" where
  "describe_image equals platform desc =
     (case wrap ''getting image'' (resolveImageFromDescriptor equals desc platform) of
        Err e \<Rightarrow> Err e | Panic \<Rightarrow> Panic
      | Ok img \<Rightarrow>
        (case wrap ''getting manifest'' (img_Manifest img) of
           Err e \<Rightarrow> Err e | Panic \<Rightarrow> Panic
         | Ok manifest \<Rightarrow>
           (case wrap ''getting config'' (img_ConfigFile img) of
              Err e \<Rightarrow> Err e | Panic \<Rightarrow> Panic
            | Ok configFile \<Rightarrow>
                Ok \<lparr> Digest = desc_Digest desc,
                     Annotations = ManifestAnnotations manifest,
                     Labels = ConfigLabels configFile,
                     Size = image_size manifest,
                     Created = ConfigCreated configFile \<rparr>)))"

definition fetch_options :: "('c, 'p) ContainerImageReconciler \<Rightarrow> remote_option list \<Rightarrow> remote_option list" where
  "fetch_options R opts =
     (opts @ (case Transport R of None \<Rightarrow> [] | Some t \<Rightarrow> [WithTransport t]))
       @ [WithContext (if RegistryTimeout R > 0 then Some (RegistryTimeout R) else None)]"

definition fetchImage ::
  "'p env \<Rightarrow> ('c, 'p) ContainerImageReconciler \<Rightarrow> reference \<Rightarrow> remote_option list \<Rightarrow> 'c world
     \<Rightarrow> ContainerImage outcome \<times> 'c world" where
  "fetchImage E R ref opts w =
     (let w1 = (tick w)\<lparr> requests := requests w @ [ref] \<rparr> in
      case wrap ''getting descriptor'' (remote_Get E (ticks w) ref (fetch_options R opts)) of
        Err e \<Rightarrow> (Err e, w1) | Panic \<Rightarrow> (Panic, w1)
      | Ok desc \<Rightarrow>
        (case describe_image (platform_Equals E) (Platform R) desc of
           Err e \<Rightarrow> (Err e, w1) | Panic \<Rightarrow> (Panic, w1)
         | Ok cimg \<Rightarrow>
           (case Cache R of
              None \<Rightarrow> (Ok cimg, w1)
            | Some ops \<Rightarrow>
              (case op_Put ops (cache w1) ref (Some cimg) (time_Now E (ticks w1)) of
                 (Some e, c) \<Rightarrow> (Err (Errorf ''putting details into the cache'' (Some e)), (tick w1)\<lparr> cache := c \<rparr>)
               | (None, c) \<Rightarrow> (Ok cimg, (tick w1)\<lparr> cache := c \<rparr>)))))"

text \<open>The singleflight group: a duplicate caller waits and gets the leader's result.\<close>

definition fetch_coalesced ::
  "'p env \<Rightarrow> ('c, 'p) ContainerImageReconciler \<Rightarrow> reference \<Rightarrow> remote_option list \<Rightarrow> 'c world
     \<Rightarrow> ContainerImage outcome \<times> 'c world" where
  "fetch_coalesced E R ref opts w =
     (if Inflight R then
        (case inflight_peer E (ticks w) (ref_String ref) of
           Some r \<Rightarrow> (r, tick w)
         | None \<Rightarrow> fetchImage E R ref opts (tick w))
      else fetchImage E R ref opts w)"

text \<open>
  \<open>getImage\<close>. After a successful cache lookup \<open>err\<close> is nil, and the second test, \<open>!errors.Is(err,
  ErrContainerImageNotFound)\<close>, is then true: an entry that is no longer fresh ends in an error.
\<close>

definition getImage ::
  "'p env \<Rightarrow> ('c, 'p) ContainerImageReconciler \<Rightarrow> string \<Rightarrow> remote_option list \<Rightarrow> 'c world
     \<Rightarrow> ContainerImage outcome \<times> 'c world" where
  "getImage E R imgRef opts w =
     (case wrap ''parsing image reference'' (ParseReference E imgRef) of
        Err e \<Rightarrow> (Err e, w) | Panic \<Rightarrow> (Panic, w)
      | Ok ref \<Rightarrow>
        (case Cache R of
           None \<Rightarrow> fetch_coalesced E R ref opts w
         | Some ops \<Rightarrow>
           (case op_Get ops (cache w) ref of
              Panic \<Rightarrow> (Panic, w)
            | Ok cimg \<Rightarrow>
                if Before (time_Now E (ticks w)) (Time_Add (CachedTime cimg) (CacheDuration R))
                then (Ok (cached_img cimg), tick w)
                else if \<not> errors_Is None ErrContainerImageNotFound
                then (Err (Errorf ''fetching image details from cache'' None), tick w)
                else fetch_coalesced E R ref opts (tick w)
            | Err e \<Rightarrow>
                if \<not> errors_Is (Some e) ErrContainerImageNotFound
                then (Err (Errorf ''fetching image details from cache'' (Some e)), w)
                else fetch_coalesced E R ref opts w)))"

text \<open>The keychain: the static pull secrets first, then the object's own, then the ambient ones.\<close>

definition newKeychain ::
  "'p env \<Rightarrow> ('c, 'p) ContainerImageReconciler \<Rightarrow> json_obj \<Rightarrow> 'c world \<Rightarrow> keychain outcome \<times> 'c world" where
  "newKeychain E R obj w =
     (let ambient = [DefaultKeychain, googleKeychain, amazonKeychain, azureKeychain];
          opts = \<lparr> opt_Namespace = fst (NestedString (obj_lib E) obj [''metadata'', ''namespace'']),
                   opt_ServiceAccountName = serviceAccountName (obj_lib E) obj (ServiceAccountNamePaths R),
                   opt_ImagePullSecrets = imagePullSecrets (obj_lib E) obj (ImagePullSecretPaths R) \<rparr>;
          (k8s, w1) = (if K8sKeychain R
             then (case wrap ''constructing k8s keychain'' (k8schain_New E (ticks w) opts) of
                     Ok kc \<Rightarrow> Ok [kc] | Err e \<Rightarrow> Err e | Panic \<Rightarrow> Panic, tick w)
             else (Ok [], w))
      in case k8s of
           Err e \<Rightarrow> (Err e, w1) | Panic \<Rightarrow> (Panic, w1)
         | Ok ks \<Rightarrow>
             (Ok (MultiKeychain
                   ((case StaticKeychain R of None \<Rightarrow> [] | Some s \<Rightarrow> [s]) @ ks @ ambient)), w1))"

text \<open>The loop of \<open>Reconcile\<close>: its state is the set of images seen and the errors so far.\<close>

fun fetch_all ::
  "'p env \<Rightarrow> ('c, 'p) ContainerImageReconciler \<Rightarrow> remote_option list \<Rightarrow> string set \<Rightarrow> error list
     \<Rightarrow> ContainerSpec list \<Rightarrow> 'c world \<Rightarrow> error list outcome \<times> 'c world" where
  "fetch_all E R opts seen errs [] w = (Ok errs, w)"
| "fetch_all E R opts seen errs (container # rest) w =
     (if Image container \<in> seen then fetch_all E R opts seen errs rest w
      else
        (case getImage E R (Image container) opts w of
           (Panic, w') \<Rightarrow> (Panic, w')
         | (Err e, w') \<Rightarrow>
             fetch_all E R opts (insert (Image container) seen)
               (errs @ [Errorf (Image container) (Some e)]) rest w'
         | (Ok img, w') \<Rightarrow> fetch_all E R opts (insert (Image container) seen) errs rest w'))"

record ctrl_Result =
  RequeueAfter :: duration

definition IgnoreNotFound :: "error \<Rightarrow> error option" where
  "IgnoreNotFound e = (if error_is NotFound e then None else Some e)"

definition Reconcile ::
  "'p env \<Rightarrow> ('c, 'p) ContainerImageReconciler \<Rightarrow> NamespacedName \<Rightarrow> 'c world
     \<Rightarrow> ctrl_Result outcome \<times> 'c world" where
  "Reconcile E R req w =
     (case client_Get E (ticks w) (GroupVersionKind R) req of
        Panic \<Rightarrow> (Panic, tick w)
      | Err e \<Rightarrow>
          (case IgnoreNotFound e of
             None \<Rightarrow> (Ok \<lparr> RequeueAfter = 0 \<rparr>, tick w)
           | Some e' \<Rightarrow> (Err e', tick w))
      | Ok obj \<Rightarrow>
          (case newKeychain E R obj (tick w) of
             (Panic, w1) \<Rightarrow> (Panic, w1)
           | (Err e, w1) \<Rightarrow> (Err (Errorf ''constructing keychain'' (Some e)), w1)
           | (Ok kc, w1) \<Rightarrow>
               (case fetch_all E R [WithAuthFromKeychain kc] {} []
                       (containerSpecs (obj_lib E) obj (ContainerPaths R)) w1 of
                  (Panic, w2) \<Rightarrow> (Panic, w2)
                | (Err e, w2) \<Rightarrow> (Err e, w2)
                | (Ok errs, w2) \<Rightarrow>
                    (case addJitter (rand_draw E (ticks w2)) (CacheDuration R) of
                       Panic \<Rightarrow> (Panic, tick w2)
                     | Err e \<Rightarrow> (Err e, tick w2)
                     | Ok d \<Rightarrow>
                         if errs \<noteq> [] then (Err (Joined errs), tick w2)
                         else (Ok \<lparr> RequeueAfter = d \<rparr>, tick w2)))))"

subsection \<open>The jitter\<close>

lemma addJitter_cases:
  "addJitter draw d =
     (if d \<le> 0 then Ok d else if d < 6 then Panic else Ok (int64 (d + draw mod (d div 6))))"
  by (auto simp: addJitter_def rand_Int64N_def Let_def)

lemma jitter_range: "6 \<le> d \<Longrightarrow> 0 \<le> draw mod (d div 6) \<and> draw mod (d div 6) < (d div 6 :: int)"
proof -
  assume "6 \<le> d"
  then have "0 < d div 6" by simp
  then show ?thesis by simp
qed

lemma addJitter_Ok_ge:
  assumes "0 < d" "d + d div 6 \<le> 2 ^ 63" "addJitter draw d = Ok r"
  shows "d \<le> r \<and> r < d + d div 6"
proof -
  have d: "6 \<le> d" using assms by (auto simp: addJitter_cases split: if_splits)
  obtain j where j: "draw mod (d div 6) = j" "0 \<le> j" "j < d div 6"
    using jitter_range [OF d, of draw] by blast
  then have "int64 (d + j) = d + j"
    using assms(2) d by (simp add: int64_def)
  then show ?thesis
    using assms(3) d j by (auto simp: addJitter_cases)
qed

subsection \<open>Choosing an image from an index\<close>

lemma find_platform_find:
  assumes "\<And>m. m \<in> set ms \<Longrightarrow> equals (entry_Platform m) p \<noteq> None"
  shows "find_platform equals p ms = Ok (find (\<lambda>m. equals (entry_Platform m) p = Some True) ms)"
  using assms
proof (induction ms)
  case Nil
  then show ?case by simp
next
  case (Cons m ms)
  then obtain b where "equals (entry_Platform m) p = Some b" by fastforce
  with Cons show ?case by (cases b) auto
qed

lemma find_platform_panics:
  "(\<And>m. m \<in> set ms \<Longrightarrow> equals (entry_Platform m) p = Some False) \<Longrightarrow>
     equals (entry_Platform m) p = None \<Longrightarrow> find_platform equals p (ms @ m # ms') = Panic"
  by (induction ms) auto

lemma find_platform_no_Err: "find_platform equals p ms \<noteq> Err e"
  by (induction ms) (auto split: option.splits bool.splits)

lemma describe_image_Digest: "describe_image equals platform desc = Ok img \<Longrightarrow> Digest img = desc_Digest desc"
  by (auto simp: describe_image_def split: outcome.splits)

lemma image_size_int64: "LayerSizes m \<noteq> [] \<Longrightarrow> - (2 ^ 63) \<le> image_size m \<and> image_size m \<le> max_int64"
  using int64_range by (cases "LayerSizes m" rule: rev_cases) (simp_all add: image_size_def)

lemma image_size_exact:
  assumes "0 \<le> ConfigSize m" "list_all (\<lambda>l. 0 \<le> l) (LayerSizes m)"
    and "ConfigSize m + sum_list (LayerSizes m) \<le> max_int64"
  shows "image_size m = ConfigSize m + sum_list (LayerSizes m)"
proof -
  have "foldl (\<lambda>sz l. int64 (sz + l)) s ls = s + sum_list ls"
    if "0 \<le> s" "list_all (\<lambda>l. 0 \<le> l) ls" "s + sum_list ls \<le> max_int64" for s ls
    using that
  proof (induction ls arbitrary: s)
    case Nil
    then show ?case by simp
  next
    case (Cons l ls)
    have "0 \<le> sum_list ls" using Cons.prems by (induction ls) auto
    with Cons.prems have "int64 (s + l) = s + l" by (intro int64_id) auto
    with Cons show ?case by (simp add: algebra_simps)
  qed
  with assms show ?thesis by (simp add: image_size_def)
qed

subsection \<open>The documented behaviour the statements use\<close>

text \<open>
  \<open>ParseReference\<close>: a reference prints as the string it was parsed from. The registry: the
  descriptor of a digest reference has that digest (the client verifies it), and no digest is empty.
  \<open>sole_caller\<close>: no other goroutine is fetching the same image at the same moment.
\<close>

definition parse_contract :: "'p env \<Rightarrow> bool" where
  "parse_contract E \<longleftrightarrow> (\<forall>s r. ParseReference E s = Ok r \<longrightarrow> ref_String r = s)"

definition registry_contract :: "'p env \<Rightarrow> bool" where
  "registry_contract E \<longleftrightarrow>
     (\<forall>n ref opts desc. remote_Get E n ref opts = Ok desc \<longrightarrow> desc_Digest desc \<noteq> ''''
        \<and> (case ref of TagRef _ \<Rightarrow> True | DigestRef _ d \<Rightarrow> desc_Digest desc = d))"

definition sole_caller :: "'p env \<Rightarrow> bool" where
  "sole_caller E \<longleftrightarrow> (\<forall>n key. inflight_peer E n key = None)"

definition clock_mono :: "'p env \<Rightarrow> bool" where
  "clock_mono E \<longleftrightarrow> (\<forall>m n. m \<le> n \<longrightarrow> time_Now E m \<le> time_Now E n)"

lemma parse_unique:
  "parse_contract E \<Longrightarrow> ParseReference E s = Ok r \<Longrightarrow> ParseReference E t = Ok q \<Longrightarrow>
     ref_String r = ref_String q \<Longrightarrow> s = t \<and> r = q"
  unfolding parse_contract_def by (metis outcome.inject(1))

subsection \<open>Each image once\<close>

text \<open>The calls of \<open>getImage\<close> on a list of images, one after the other, with the error of each.\<close>

fun attempts ::
  "'p env \<Rightarrow> ('c, 'p) ContainerImageReconciler \<Rightarrow> remote_option list \<Rightarrow> string list \<Rightarrow> 'c world
     \<Rightarrow> (string \<times> error) list outcome \<times> 'c world" where
  "attempts E R opts [] w = (Ok [], w)"
| "attempts E R opts (i # is) w =
     (case getImage E R i opts w of
        (Panic, w') \<Rightarrow> (Panic, w')
      | (Ok _, w') \<Rightarrow> attempts E R opts is w'
      | (Err e, w') \<Rightarrow>
          (case attempts E R opts is w' of
             (Ok fs, w'') \<Rightarrow> (Ok ((i, e) # fs), w'')
           | (r, w'') \<Rightarrow> (r, w'')))"

definition failure :: "string \<times> error \<Rightarrow> error" where
  "failure f = Errorf (fst f) (Some (snd f))"

lemma attempts_no_Err: "fst (attempts E R opts is w) \<noteq> Err e"
  by (induction "is" arbitrary: w) (auto split: prod.splits outcome.splits, metis fst_conv)

lemma fetch_all_attempts:
  "fetch_all E R opts seen errs specs w =
     (case attempts E R opts (filter (\<lambda>i. i \<notin> seen) (firsts (map Image specs))) w of
        (Ok fs, w') \<Rightarrow> (Ok (errs @ map failure fs), w')
      | (Err e, w') \<Rightarrow> (Err e, w')
      | (Panic, w') \<Rightarrow> (Panic, w'))"
proof (induction specs arbitrary: seen errs w)
  case Nil
  then show ?case by simp
next
  case (Cons s specs)
  have skip: "filter (\<lambda>y. y \<noteq> Image s \<and> y \<notin> seen) F = filter (\<lambda>y. y \<notin> seen) F"
    if "Image s \<in> seen" for F
    using that by (auto intro!: filter_cong)
  show ?case
  proof (cases "Image s \<in> seen")
    case True
    then show ?thesis by (simp add: Cons skip)
  next
    case False
    obtain r w' where g: "getImage E R (Image s) opts w = (r, w')" by fastforce
    obtain q w'' where "attempts E R opts (filter (\<lambda>y. y \<noteq> Image s \<and> y \<notin> seen)
        (firsts (map Image specs))) w' = (q, w'')" by fastforce
    with False g show ?thesis
      by (cases r; cases q) (simp_all add: Cons failure_def)
  qed
qed
subsection \<open>Requests to the registry\<close>

lemma fetchImage_requests: "requests (snd (fetchImage E R ref opts w)) = requests w @ [ref]"
  by (auto simp: fetchImage_def Let_def split: outcome.splits option.splits prod.splits)

lemma fetch_coalesced_requests:
  "requests (snd (fetch_coalesced E R ref opts w)) \<in> {requests w, requests w @ [ref]}"
  by (simp add: fetch_coalesced_def fetchImage_requests split: option.splits)

lemma getImage_requests:
  "requests (snd (getImage E R i opts w)) = requests w
   \<or> (\<exists>ref. ParseReference E i = Ok ref \<and> requests (snd (getImage E R i opts w)) = requests w @ [ref])"
  using fetch_coalesced_requests [of E R _ opts w] fetch_coalesced_requests [of E R _ opts "tick w"]
  by (auto simp: getImage_def split: outcome.splits option.splits)

lemma snd_attempts_Cons:
  "snd (attempts E R opts (i # is) w) =
     (case getImage E R i opts w of
        (Panic, w') \<Rightarrow> w'
      | (_, w') \<Rightarrow> snd (attempts E R opts is w'))"
  by (simp split: prod.split outcome.split)

lemma attempts_requests:
  assumes "parse_contract E"
  shows "\<exists>rs. requests (snd (attempts E R opts is w)) = requests w @ rs \<and> subseq (map ref_String rs) is"
proof (induction "is" arbitrary: w)
  case Nil
  show ?case by simp
next
  case (Cons i "is")
  obtain r w' where g: "getImage E R i opts w = (r, w')" by fastforce
  obtain qs where qs: "requests w' = requests w @ qs" "map ref_String qs = [] \<or> map ref_String qs = [i]"
    using getImage_requests [of E R i opts w] assms g by (fastforce simp: parse_contract_def)
  obtain rs where rs: "requests (snd (attempts E R opts is w')) = requests w' @ rs"
      "subseq (map ref_String rs) is" using Cons.IH by blast
  show ?case
  proof (cases r)
    case Panic
    have "subseq (map ref_String qs) (i # is)" using qs(2) by auto
    with Panic qs show ?thesis unfolding snd_attempts_Cons g by auto
  next
    case (Ok _)
    have "subseq (map ref_String (qs @ rs)) (i # is)" using qs(2) rs(2) by auto
    with Ok qs rs show ?thesis unfolding snd_attempts_Cons g by (auto intro!: exI [of _ "qs @ rs"])
  next
    case (Err _)
    have "subseq (map ref_String (qs @ rs)) (i # is)" using qs(2) rs(2) by auto
    with Err qs rs show ?thesis unfolding snd_attempts_Cons g by (auto intro!: exI [of _ "qs @ rs"])
  qed
qed

text \<open>What the registry had to say about a reference.\<close>

definition fetched ::
  "'p env \<Rightarrow> ('c, 'p) ContainerImageReconciler \<Rightarrow> reference \<Rightarrow> remote_option list \<Rightarrow> nat
     \<Rightarrow> ContainerImage outcome" where
  "fetched E R ref opts n =
     (case wrap ''getting descriptor'' (remote_Get E n ref (fetch_options R opts)) of
        Err e \<Rightarrow> Err e | Panic \<Rightarrow> Panic
      | Ok desc \<Rightarrow> describe_image (platform_Equals E) (Platform R) desc)"

lemma fetched_contract:
  assumes "registry_contract E" "fetched E R ref opts n = Ok img"
  shows "Digest img \<noteq> ''''" and "ref = DigestRef s d \<Longrightarrow> d = Digest img"
proof -
  obtain desc where "remote_Get E n ref (fetch_options R opts) = Ok desc" "Digest img = desc_Digest desc"
    using assms(2) by (auto simp: fetched_def describe_image_Digest split: outcome.splits)
  with assms(1) show "Digest img \<noteq> ''''" and "ref = DigestRef s d \<Longrightarrow> d = Digest img"
    by (fastforce simp: registry_contract_def)+
qed

subsection \<open>The reconciler as a user of the cache\<close>

text \<open>Everything here rests on the contract of the cache alone.\<close>

context image_cache
begin

definition resolved :: "'p env \<Rightarrow> 'c \<Rightarrow> string \<Rightarrow> bool" where
  "resolved E c i \<longleftrightarrow> (\<exists>ref ci. ParseReference E i = Ok ref \<and> op_Get ops c ref = Ok ci)"

lemma fetchImage_eq:
  assumes "Cache R = Some ops"
  shows "fetchImage E R ref opts w =
     (let r = fetched E R ref opts (ticks w); w1 = (tick w)\<lparr> requests := requests w @ [ref] \<rparr> in
      case r of
        Ok img \<Rightarrow>
          (r, (tick w1)\<lparr> cache := snd (op_Put ops (cache w) ref (Some img) (time_Now E (Suc (ticks w)))) \<rparr>)
      | _ \<Rightarrow> (r, w1))"
proof -
  have put: "\<exists>c. op_Put ops (cache w) ref img now = (None, c)" for img now
    using put_ok [of "cache w" ref img now] by (metis prod.collapse)
  show ?thesis
  proof (cases "wrap ''getting descriptor'' (remote_Get E (ticks w) ref (fetch_options R opts))")
    case (Ok desc)
    show ?thesis
    proof (cases "describe_image (platform_Equals E) (Platform R) desc")
      case img: (Ok img)
      obtain c where "op_Put ops (cache w) ref (Some img) (time_Now E (Suc (ticks w))) = (None, c)"
        using put by blast
      with Ok img show ?thesis by (simp add: fetchImage_def fetched_def Let_def assms)
    qed (use Ok in \<open>simp_all add: fetchImage_def fetched_def Let_def assms\<close>)
  qed (simp_all add: fetchImage_def fetched_def Let_def assms)
qed

lemma fetch_coalesced_inv:
  "Cache R = Some ops \<Longrightarrow> inv (cache w) \<Longrightarrow> inv (cache (snd (fetch_coalesced E R ref opts w)))"
  by (simp add: fetch_coalesced_def fetchImage_eq Let_def put_inv split: option.split outcome.split)

lemma getImage_inv:
  "Cache R = Some ops \<Longrightarrow> inv (cache w) \<Longrightarrow> inv (cache (snd (getImage E R i opts w)))"
  by (simp add: getImage_def fetch_coalesced_inv split: outcome.split)

lemma attempts_inv:
  "Cache R = Some ops \<Longrightarrow> inv (cache w) \<Longrightarrow> inv (cache (snd (attempts E R opts is w)))"
proof (induction "is" arbitrary: w)
  case Nil
  then show ?case by simp
next
  case (Cons i "is")
  obtain r w' where g: "getImage E R i opts w = (r, w')" by fastforce
  with getImage_inv [OF Cons.prems, of E i opts] have "inv (cache w')" by simp
  with Cons.IH [OF Cons.prems(1)] show ?case
    unfolding snd_attempts_Cons g by (simp split: outcome.split)
qed

lemma newKeychain_cache: "cache (snd (newKeychain E R obj w)) = cache w"
  by (simp add: newKeychain_def Let_def split: outcome.split)

lemma fetch_all_world:
  "snd (fetch_all E R opts {} [] specs w) = snd (attempts E R opts (firsts (map Image specs)) w)"
  by (simp add: fetch_all_attempts split: prod.split outcome.split)

text \<open>\<open>getImage\<close>, branch by branch.\<close>

lemma getImage_hit:
  assumes "Cache R = Some ops" "ParseReference E i = Ok ref" "op_Get ops (cache w) ref = Ok ci"
    and "time_Now E (ticks w) < Time_Add (CachedTime ci) (CacheDuration R)"
  shows "getImage E R i opts w = (Ok (cached_img ci), tick w)"
  using assms by (simp add: getImage_def Before_def)

lemma getImage_expired:
  assumes "Cache R = Some ops" "ParseReference E i = Ok ref" "op_Get ops (cache w) ref = Ok ci"
    and "Time_Add (CachedTime ci) (CacheDuration R) \<le> time_Now E (ticks w)"
  shows "getImage E R i opts w = (Err (Errorf ''fetching image details from cache'' None), tick w)"
  using assms by (simp add: getImage_def Before_def)

lemma getImage_miss:
  assumes "Cache R = Some ops" "ParseReference E i = Ok ref" "\<And>ci. op_Get ops (cache w) ref \<noteq> Ok ci"
  shows "getImage E R i opts w = fetch_coalesced E R ref opts w"
  using assms get_missing [of "cache w" ref] by (simp add: getImage_def)

end
subsection \<open>What a reconcile leaves in the cache\<close>

context image_cache
begin

lemma fetch_coalesced_sole:
  "sole_caller E \<Longrightarrow>
     fetch_coalesced E R ref opts w = fetchImage E R ref opts (if Inflight R then tick w else w)"
  by (simp add: fetch_coalesced_def sole_caller_def)

text \<open>The cache after \<open>getImage\<close>: unchanged, or with one image put under the parsed reference.\<close>

lemma getImage_cache:
  assumes "Cache R = Some ops" "sole_caller E" "registry_contract E"
  shows "(cache (snd (getImage E R i opts w)) = cache w
            \<and> (is_Ok (fst (getImage E R i opts w)) \<longrightarrow> resolved E (cache w) i))
       \<or> (\<exists>ref img now. ParseReference E i = Ok ref \<and> Digest img \<noteq> '''' \<and> (\<forall>s d. ref = DigestRef s d \<longrightarrow> d = Digest img)
            \<and> cache (snd (getImage E R i opts w)) = snd (op_Put ops (cache w) ref (Some img) now))"
proof (cases "ParseReference E i")
  case (Ok ref)
  show ?thesis
  proof (cases "\<exists>ci. op_Get ops (cache w) ref = Ok ci")
    case True
    then obtain ci where ci: "op_Get ops (cache w) ref = Ok ci" ..
    show ?thesis
      using getImage_hit [OF assms(1) Ok ci, of opts] getImage_expired [OF assms(1) Ok ci, of opts] Ok ci
      by (cases "time_Now E (ticks w) < Time_Add (CachedTime ci) (CacheDuration R)")
        (auto simp: resolved_def not_less)
  next
    case False
    let ?v = "if Inflight R then tick w else w"
    have miss: "op_Get ops (cache w) ref \<noteq> Ok ci" for ci using False by blast
    have g: "getImage E R i opts w = fetchImage E R ref opts ?v"
      unfolding getImage_miss [OF assms(1) Ok miss] by (rule fetch_coalesced_sole [OF assms(2)])
    have v: "cache ?v = cache w" by simp
    show ?thesis
    proof (cases "fetched E R ref opts (ticks ?v)")
      case img: (Ok img)
      then show ?thesis
        unfolding g fetchImage_eq [OF assms(1)]
        using Ok fetched_contract [OF assms(3) img] by (auto simp: Let_def)
    qed (auto simp: g fetchImage_eq [OF assms(1)] Let_def)
  qed
qed (auto simp: getImage_def)

lemma getImage_resolves:
  assumes "Cache R = Some ops" "sole_caller E" "registry_contract E" "inv (cache w)"
    and "is_Ok (fst (getImage E R i opts w))"
  shows "resolved E (cache (snd (getImage E R i opts w))) i"
  using getImage_cache [OF assms(1-3), of i opts w] assms(4,5) get_put_same
  by (fastforce simp: resolved_def)

lemma getImage_keeps:
  assumes "Cache R = Some ops" "sole_caller E" "registry_contract E" "parse_contract E" "inv (cache w)"
    and "resolved E (cache w) j"
  shows "resolved E (cache (snd (getImage E R i opts w))) j"
  using getImage_cache [OF assms(1-3), of i opts w]
proof (elim disjE exE conjE)
  assume "cache (snd (getImage E R i opts w)) = cache w"
  with assms(6) show ?thesis by simp
next
  fix ref img now
  assume put: "cache (snd (getImage E R i opts w)) = snd (op_Put ops (cache w) ref (Some img) now)"
    and ref: "ParseReference E i = Ok ref" and img: "Digest img \<noteq> ''''"
      "\<forall>s d. ref = DigestRef s d \<longrightarrow> d = Digest img"
  from assms(6) obtain r ci where r: "ParseReference E j = Ok r" "op_Get ops (cache w) r = Ok ci"
    by (auto simp: resolved_def)
  show ?thesis
  proof (cases "ref_String r = ref_String ref")
    case True
    then have "r = ref" using parse_unique [OF assms(4) r(1) ref] by simp
    with r get_put_same [OF assms(5) img(1), of ref now] img(2) show ?thesis
      by (auto simp: resolved_def put)
  next
    case False
    with r get_put_nonempty [OF assms(5) img(1) r(2) False] show ?thesis
      by (auto simp: resolved_def put)
  qed
qed

lemma attempts_keeps:
  assumes "Cache R = Some ops" "sole_caller E" "registry_contract E" "parse_contract E"
  shows "inv (cache w) \<Longrightarrow> resolved E (cache w) j \<Longrightarrow> resolved E (cache (snd (attempts E R opts is w))) j"
proof (induction "is" arbitrary: w)
  case Nil
  then show ?case by simp
next
  case (Cons i "is")
  obtain r w' where g: "getImage E R i opts w = (r, w')" by fastforce
  have "inv (cache w')" "resolved E (cache w') j"
    using getImage_inv [OF assms(1) Cons.prems(1), of E i opts] getImage_keeps [OF assms Cons.prems, of i opts] g
    by simp_all
  then show ?case
    unfolding snd_attempts_Cons g by (simp add: Cons.IH split: outcome.split)
qed

lemma attempts_resolves:
  assumes "Cache R = Some ops" "sole_caller E" "registry_contract E" "parse_contract E"
  shows "inv (cache w) \<Longrightarrow> attempts E R opts is w = (Ok fs, w') \<Longrightarrow> j \<in> set is \<Longrightarrow> j \<notin> fst ` set fs \<Longrightarrow>
     resolved E (cache w') j"
proof (induction "is" arbitrary: w fs)
  case Nil
  then show ?case by simp
next
  case (Cons i "is")
  obtain r v where g: "getImage E R i opts w = (r, v)" by fastforce
  have inv: "inv (cache v)" using getImage_inv [OF assms(1) Cons.prems(1), of E i opts] g by simp
  have w': "w' = snd (attempts E R opts is v)"
    using Cons.prems(2) snd_attempts_Cons [of E R opts i "is" w] by (cases r) (auto simp: g)
  show ?case
  proof (cases r)
    case (Ok img)
    then have a: "attempts E R opts is v = (Ok fs, w')" using Cons.prems(2) g by simp
    show ?thesis
    proof (cases "j = i")
      case True
      have "resolved E (cache v) i"
        using getImage_resolves [OF assms(1-3) Cons.prems(1), of i opts] g Ok by simp
      with True show ?thesis unfolding w' using attempts_keeps [OF assms inv] by blast
    next
      case False
      with Cons.prems(3,4) show ?thesis using Cons.IH [OF inv a] by simp
    qed
  next
    case (Err e)
    then obtain gs where "attempts E R opts is v = (Ok gs, w')" "fs = (i, e) # gs"
      using Cons.prems(2) g by (auto split: prod.splits outcome.splits)
    with Cons.prems(3,4) show ?thesis using Cons.IH [OF inv] by auto
  next
    case Panic
    with Cons.prems(2) g show ?thesis by simp
  qed
qed

lemma Reconcile_inv:
  assumes "Cache R = Some ops" "inv (cache w)"
  shows "inv (cache (snd (Reconcile E R req w)))"
proof (cases "client_Get E (ticks w) (GroupVersionKind R) req")
  case (Ok obj)
  obtain k v where k: "newKeychain E R obj (tick w) = (k, v)" by fastforce
  then have "inv (cache v)" using newKeychain_cache [of E R obj "tick w"] assms by simp
  then have f: "inv (cache (snd (fetch_all E R opts {} [] specs v)))" for opts specs
    unfolding fetch_all_world by (rule attempts_inv [OF assms(1)])
  show ?thesis
  proof (cases k)
    case kc: (Ok kc)
    let ?f = "fetch_all E R [WithAuthFromKeychain kc] {} [] (containerSpecs (obj_lib E) obj (ContainerPaths R)) v"
    have "cache (snd (Reconcile E R req w)) = cache (snd ?f)"
      by (simp add: Reconcile_def Ok k kc split: prod.split outcome.split)
    with f show ?thesis by simp
  qed (use \<open>inv (cache v)\<close> in \<open>simp_all add: Reconcile_def Ok k\<close>)
qed (simp_all add: Reconcile_def assms split: option.split)

text \<open>
  A reconcile that ends without an error: the object's containers, read from the API server's
  answer, all have their image in the cache.
\<close>

lemma Reconcile_resolves:
  assumes "Cache R = Some ops" "sole_caller E" "registry_contract E" "parse_contract E" "inv (cache w)"
    and obj: "client_Get E (ticks w) (GroupVersionKind R) req = Ok obj"
    and ok: "Reconcile E R req w = (Ok res, w')"
    and container: "container \<in> set (containerSpecs (obj_lib E) obj (ContainerPaths R))"
  shows "resolved E (cache w') (Image container)"
proof -
  obtain k v where k: "newKeychain E R obj (tick w) = (k, v)" by fastforce
  then have inv: "inv (cache v)" using newKeychain_cache [of E R obj "tick w"] assms(5) by simp
  from ok obj k obtain kc errs w2 where kc: "k = Ok kc"
    and f: "fetch_all E R [WithAuthFromKeychain kc] {} [] (containerSpecs (obj_lib E) obj (ContainerPaths R)) v
        = (Ok errs, w2)"
    and errs: "errs = []" and w': "w' = tick w2"
    by (auto simp: Reconcile_def split: outcome.splits prod.splits if_splits)
  from f obtain fs where a: "attempts E R [WithAuthFromKeychain kc]
       (firsts (map Image (containerSpecs (obj_lib E) obj (ContainerPaths R)))) v = (Ok fs, w2)"
    and "map failure fs = errs"
    by (auto simp: fetch_all_attempts split: prod.splits outcome.splits)
  with errs have "fs = []" by simp
  with attempts_resolves [OF assms(1-4) inv a, of "Image container"] container show ?thesis
    by (simp add: w')
qed

end

subsection \<open>Retrying an image whose entry has expired\<close>

text \<open>\<open>n\<close> calls of \<open>getImage\<close> for the same image, one after the other.\<close>

fun retries ::
  "'p env \<Rightarrow> ('c, 'p) ContainerImageReconciler \<Rightarrow> string \<Rightarrow> remote_option list \<Rightarrow> nat \<Rightarrow> 'c world
     \<Rightarrow> ContainerImage outcome list \<times> 'c world" where
  "retries E R i opts 0 w = ([], w)"
| "retries E R i opts (Suc n) w =
     (case getImage E R i opts w of (r, w') \<Rightarrow>
        (case retries E R i opts n w' of (rs, w'') \<Rightarrow> (r # rs, w'')))"

context image_cache
begin

lemma retries_expired:
  assumes "Cache R = Some ops" "ParseReference E i = Ok ref" "clock_mono E"
  shows "op_Get ops (cache w) ref = Ok ci \<Longrightarrow>
     Time_Add (CachedTime ci) (CacheDuration R) \<le> time_Now E (ticks w) \<Longrightarrow>
     fst (retries E R i opts n w) = replicate n (Err (Errorf ''fetching image details from cache'' None))
     \<and> requests (snd (retries E R i opts n w)) = requests w
     \<and> cache (snd (retries E R i opts n w)) = cache w"
proof (induction n arbitrary: w)
  case 0
  then show ?case by simp
next
  case (Suc n)
  have "time_Now E (ticks w) \<le> time_Now E (Suc (ticks w))"
    using assms(3) by (simp add: clock_mono_def)
  with Suc.prems have "Time_Add (CachedTime ci) (CacheDuration R) \<le> time_Now E (ticks (tick w))"
    by simp
  with Suc.IH [of "tick w"] Suc.prems show ?case
    by (auto simp: getImage_expired [OF assms(1,2) Suc.prems] split: prod.splits)
qed

end

lemma time_add_mono: "s \<le> t \<Longrightarrow> d \<le> e \<Longrightarrow> Time_Add s d \<le> Time_Add t e"
  by (simp add: Time_Add_def less_eq_time_def)


subsection \<open>Properties\<close>

text \<open>A concrete environment for the witnesses: every reference is a tag, and every tag has one image.\<close>

definition example_desc :: "nat remote_Descriptor" where
  "example_desc =
     \<lparr> MediaType = ''application/vnd.oci.image.manifest.v1+json'', desc_Digest = ''d'',
       desc_ImageIndex = Panic,
       desc_Image = Ok \<lparr> img_Manifest = Ok \<lparr> ConfigSize = 1, LayerSizes = [2, 3], ManifestAnnotations = [] \<rparr>,
                         img_ConfigFile = Ok \<lparr> ConfigLabels = [], ConfigCreated = At 0 \<rparr> \<rparr> \<rparr>"

definition example_obj :: json_obj where
  "example_obj = [(''spec'', JObj [(''containers'', JArr [JObj [(''name'', JStr ''a''), (''image'', JStr ''i'')]])])]"

definition example_env :: "nat env" where
  "example_env =
     \<lparr> time_Now = (\<lambda>n. At (int n)), rand_draw = (\<lambda>_. 0), ParseReference = (\<lambda>s. Ok (TagRef s)),
       remote_Get = (\<lambda>_ ref _. case ref of TagRef s \<Rightarrow> if s = ''bad'' then Err (External ''no'') else Ok example_desc
                                | DigestRef _ _ \<Rightarrow> Err (External ''no'')),
       platform_Equals = (\<lambda>_ _. Some False), k8schain_New = (\<lambda>_ _. Err (External ''no'')),
       client_Get = (\<lambda>_ _ req. Ok (if snd req = ''bad'' then [(''spec'', JObj [(''containers'', JArr [JObj [(''image'', JStr ''bad'')]])])]
                                   else example_obj)),
       inflight_peer = (\<lambda>_ _. None), obj_lib = example_lib \<rparr>"

definition example_reconciler :: "(cacheImpl, nat) ContainerImageReconciler" where
  "example_reconciler =
     \<lparr> GroupVersionKind = \<lparr> Group = '''', Version = ''v1'', Kind = ''Pod'' \<rparr>,
       ContainerPaths = [[''spec'', ''containers'']], ImagePullSecretPaths = [], ServiceAccountNamePaths = [],
       Cache = Some cacheImpl_ops, CacheDuration = 60, Platform = None, K8sKeychain = False,
       StaticKeychain = None, Transport = None, Inflight = True, RegistryTimeout = 0 \<rparr>"

definition example_world :: "cacheImpl world" where
  "example_world = \<lparr> cache = NewContainerImageCache, ticks = 0, requests = [] \<rparr>"

lemma example_env_ok:
  "sole_caller example_env" "registry_contract example_env" "parse_contract example_env"
  by (auto simp: sole_caller_def registry_contract_def parse_contract_def example_env_def example_desc_def
      split: reference.splits if_splits)

lemmas example_defs = example_env_def example_desc_def example_reconciler_def example_world_def

lemma resolved_iff:
  "cache_impl.resolved E c i \<longleftrightarrow> (\<exists>ref ci. ParseReference E i = Ok ref \<and> Get c ref = Ok ci)"
  by (simp add: cache_impl.resolved_def) (simp add: cacheImpl_ops_def)

lemma resolved_digest:
  assumes "cache_inv c" "cache_impl.resolved E c i"
  shows "\<exists>ref ci. ParseReference E i = Ok ref \<and> Get c ref = Ok ci \<and> Digest (cached_img ci) \<noteq> ''''"
  using assms(2) Get_digest [OF assms(1)] by (fastforce simp: resolved_iff Get_Ok_iff)


lemma example_specs:
  "specsForPath example_lib example_obj [''spec'', ''containers''] =
     [\<lparr> JSONPath = slice_path [''spec'', ''containers''] 0, Name = ''a'', Image = ''i'' \<rparr>]"
  by (simp add: example_obj_def example_lib_def specsForPath_def spec_of_def opt_cons_def)

lemma example_reconcile:
  "\<exists>w'. Reconcile example_env example_reconciler (''ns'', ''pod'') example_world = (Ok \<lparr> RequeueAfter = 60 \<rparr>, w')"
  by (simp add: Reconcile_def example_defs example_specs newKeychain_def getImage_def fetch_coalesced_def
      fetchImage_def describe_image_def resolveImageFromDescriptor_def cacheImpl_ops_def Get_def digest_for_def
      NewContainerImageCache_def Put_def addJitter_def rand_Int64N_def int64_def OCIImageIndex_def
      DockerManifestList_def image_size_def Let_def)




lemma bad_specs:
  "specsForPath example_lib [(''spec'', JObj [(''containers'', JArr [JObj [(''image'', JStr ''bad'')]])])] [''spec'', ''containers''] =
     [\<lparr> JSONPath = slice_path [''spec'', ''containers''] 0, Name = '''', Image = ''bad'' \<rparr>]"
  by (simp add: example_lib_def specsForPath_def spec_of_def opt_cons_def)

lemma bad_reconcile:
  "\<exists>w'. Reconcile example_env example_reconciler (''ns'', ''bad'') example_world =
     (Err (Joined [Errorf ''bad'' (Some (Errorf ''getting descriptor'' (Some (External ''no''))))]), w')"
  by (simp add: Reconcile_def example_defs bad_specs newKeychain_def getImage_def fetch_coalesced_def
      fetchImage_def cacheImpl_ops_def Get_def digest_for_def
      NewContainerImageCache_def addJitter_def rand_Int64N_def int64_def Let_def)


lemma subseq_distinct: "subseq xs ys \<Longrightarrow> distinct ys \<Longrightarrow> distinct xs"
  by (induction rule: list_emb.induct) (auto dest: list_emb_set)

lemma subseq_subset: "subseq xs ys \<Longrightarrow> set xs \<subseteq> set ys"
  by (induction rule: list_emb.induct) auto

text \<open>C31. A reconcile asks the registry for an image at most once, however many containers name it, and
  only for images of the object's containers.\<close>

theorem reconcile_requests_once:
  assumes "parse_contract E" and obj: "client_Get E (ticks w) (GroupVersionKind R) req = Ok obj"
  shows "\<exists>rs. requests (snd (Reconcile E R req w)) = requests w @ rs \<and> distinct (map ref_String rs)
     \<and> set (map ref_String rs) \<subseteq> Image ` set (containerSpecs (obj_lib E) obj (ContainerPaths R))"
proof -
  obtain k v where k: "newKeychain E R obj (tick w) = (k, v)" by fastforce
  then have v: "requests v = requests w"
    by (auto simp: newKeychain_def Let_def split: outcome.splits if_splits prod.splits)
  show ?thesis
  proof (cases k)
    case (Ok kc)
    let ?is = "firsts (map Image (containerSpecs (obj_lib E) obj (ContainerPaths R)))"
    let ?f = "fetch_all E R [WithAuthFromKeychain kc] {} [] (containerSpecs (obj_lib E) obj (ContainerPaths R)) v"
    obtain rs where rs: "requests (snd (attempts E R [WithAuthFromKeychain kc] ?is v)) = requests v @ rs"
        "subseq (map ref_String rs) ?is"
      using attempts_requests [OF assms(1)] by blast
    have f: "requests (snd ?f) = requests (snd (attempts E R [WithAuthFromKeychain kc] ?is v))"
      by (simp add: fetch_all_attempts split: prod.split outcome.split)
    have d: "distinct (map ref_String rs)"
      by (rule subseq_distinct [OF rs(2) distinct_firsts])
    have s: "set (map ref_String rs) \<subseteq> set ?is"
      by (rule subseq_subset [OF rs(2)])
    have "requests (snd (Reconcile E R req w)) = requests (snd ?f)"
      by (simp add: Reconcile_def obj k Ok split: prod.split outcome.split)
    with f v rs(1) d s show ?thesis by (intro exI [of _ rs]) auto
  qed (use v in \<open>simp_all add: Reconcile_def obj k\<close>)
qed

theorem reconcile_requests_once_witness:
  "\<exists>rs. requests (snd (Reconcile example_env example_reconciler (''ns'', ''pod'') example_world)) = rs
     \<and> distinct (map ref_String rs) \<and> set (map ref_String rs) \<subseteq> {''i''}"
  using reconcile_requests_once [OF example_env_ok(3), of example_world example_reconciler "(''ns'', ''pod'')" example_obj]
  by (simp add: example_env_def example_world_def)
    (simp add: example_reconciler_def example_specs [unfolded example_lib_def] example_specs)

text \<open>C13. An entry that has expired is never refreshed. \<open>getImage\<close> takes the nil error of the successful
  lookup for a failure of the cache, returns an error and asks nobody; so however often the reconcile
  is retried, every try fails, without a request to the registry, and the stale entry stays.\<close>

theorem expired_entry_never_refreshed:
  assumes "Cache R = Some cacheImpl_ops" "ParseReference E i = Ok ref" "clock_mono E"
    and "Get (cache w) ref = Ok ci" "Time_Add (CachedTime ci) (CacheDuration R) \<le> time_Now E (ticks w)"
  shows "fst (retries E R i opts n w) = replicate n (Err (Errorf ''fetching image details from cache'' None))
   \<and> requests (snd (retries E R i opts n w)) = requests w
   \<and> Get (cache (snd (retries E R i opts n w))) ref = Ok ci"
  using cache_impl.retries_expired [OF assms(1-3), of w ci opts n] assms(4,5)
  by (simp add: cacheImpl_ops_def)

definition stale_world :: "cacheImpl world" where
  "stale_world =
     \<lparr> cache = \<lparr> digestMap = [(''i'', ''d'')], imageMap = [(''d'', \<lparr> cached_img = example_img ''d'', CachedTime = At 0 \<rparr>)] \<rparr>,
       ticks = 100, requests = [] \<rparr>"

theorem expired_entry_never_refreshed_witness:
  "requests (snd (retries example_env example_reconciler ''i'' [] 3 stale_world)) = []
   \<and> \<not> is_Ok (fst (retries example_env example_reconciler ''i'' [] 3 stale_world) ! 2)"
proof -
  have "clock_mono example_env" by (simp add: clock_mono_def example_env_def less_eq_time_def)
  moreover have "Get (cache stale_world) (TagRef ''i'') = Ok \<lparr> cached_img = example_img ''d'', CachedTime = At 0 \<rparr>"
    by (simp add: stale_world_def Get_def digest_for_def)
  ultimately show ?thesis
    using expired_entry_never_refreshed [of example_reconciler example_env "''i''" "TagRef ''i''" stale_world
        "\<lparr> cached_img = example_img ''d'', CachedTime = At 0 \<rparr>" "[]" 3]
    by (simp add: example_reconciler_def example_env_def stale_world_def Time_Add_def less_eq_time_def)
qed




text \<open>C33. The jitter: a duration that is not positive is returned as it is, one of less than six
  nanoseconds makes the reconciler panic, and any other comes back lengthened by less than a sixth of
  itself, as long as that still fits 64 bits.\<close>

theorem addJitter_spec:
  "(d \<le> 0 \<longrightarrow> addJitter draw d = Ok d)
   \<and> (0 < d \<and> d < 6 \<longrightarrow> addJitter draw d = Panic)
   \<and> (6 \<le> d \<and> d + d div 6 \<le> 2 ^ 63 \<longrightarrow> (\<exists>r. addJitter draw d = Ok r \<and> d \<le> r \<and> r < d + d div 6))"
proof (intro conjI impI)
  assume d: "6 \<le> d \<and> d + d div 6 \<le> 2 ^ 63"
  then have "\<exists>r. addJitter draw d = Ok r" by (simp add: addJitter_cases)
  with d addJitter_Ok_ge show "\<exists>r. addJitter draw d = Ok r \<and> d \<le> r \<and> r < d + d div 6"
    by (metis less_le_trans zero_less_numeral)
qed (simp_all add: addJitter_cases)

theorem addJitter_spec_witness:
  "addJitter 7 5 = Panic \<and> addJitter 7 0 = Ok 0 \<and> (\<exists>r. addJitter 7 60 = Ok r \<and> 60 \<le> r \<and> r < 70)"
  using addJitter_spec [of 5 7] addJitter_spec [of 0 7] addJitter_spec [of 60 7] by simp


definition example_index :: "nat remote_Descriptor" where
  "example_index =
     \<lparr> MediaType = OCIImageIndex, desc_Digest = ''d'',
       desc_ImageIndex = Ok \<lparr> IndexManifest = Ok [\<lparr> entry_Digest = ''x'', entry_Platform = Some 1 \<rparr>, \<lparr> entry_Digest = ''y'', entry_Platform = Some 2 \<rparr>],
                              index_Image = (\<lambda>d. Err (External d)) \<rparr>,
       desc_Image = Panic \<rparr>"


text \<open>The size of an image is that of its config and all its layers, without a wrap-around as
  long as the total fits 64 bits, and its digest is the one the registry resolved the reference to:
  for an index that of the index, not of the platform's manifest.\<close>

theorem described_image:
  assumes "describe_image equals platform desc = Ok img"
    and "resolveImageFromDescriptor equals desc platform = Ok v" "img_Manifest v = Ok manifest"
    and "0 \<le> ConfigSize manifest" "\<forall>l \<in> set (LayerSizes manifest). 0 \<le> l"
      "ConfigSize manifest + sum_list (LayerSizes manifest) \<le> max_int64"
  shows "Digest img = desc_Digest desc \<and> Annotations img = ManifestAnnotations manifest
     \<and> Size img = ConfigSize manifest + sum_list (LayerSizes manifest)"
proof -
  have "Size img = image_size manifest" "Digest img = desc_Digest desc" "Annotations img = ManifestAnnotations manifest"
    using assms(1-3) by (auto simp: describe_image_def split: outcome.splits)
  with image_size_exact [of manifest] assms(4-6) show ?thesis by (simp add: list_all_iff)
qed

theorem described_image_witness:
  "Size (the_Ok (describe_image (\<lambda>_ _. Some True) None example_desc)) = 6"
proof -
  have r: "resolveImageFromDescriptor (\<lambda>_ _. Some True) example_desc None = desc_Image example_desc"
    by (simp add: resolveImageFromDescriptor_def example_desc_def OCIImageIndex_def DockerManifestList_def)
  have "is_Ok (describe_image (\<lambda>_ _. Some True) None example_desc)"
    by (simp add: describe_image_def r) (simp add: example_desc_def)
  then obtain img where "describe_image (\<lambda>_ _. Some True) None example_desc = Ok img"
    by (auto simp: is_Ok_iff)
  with described_image [OF this, of "the_Ok (desc_Image example_desc)" "\<lparr> ConfigSize = 1, LayerSizes = [2, 3], ManifestAnnotations = [] \<rparr>"]
  show ?thesis by (simp add: r) (simp add: example_desc_def max_int64_def)
qed

end
