(* ===== verification/Resources.thy ===== *)
theory Resources
  imports Reconciler
begin

section \<open>Watched resources and their discovery (\<^verbatim>\<open>internal/clusterexporter/setup.go\<close>)\<close>

text \<open>
  The tables that say which resource types are watched and where their containers, pull secrets and
  service account stand, and \<open>discoverAdditionalResources\<close>, which adds the known CRDs the cluster
  has and the exporter may list. The discovery endpoint, the group-version parser and the direct
  client are the parameter \<open>discovery_env\<close>.
\<close>

datatype watched_object = TypedObject string | UnstructuredObject GVK

record watchedResource =
  wr_object :: watched_object
  groupVersionKind :: GVK
  containerPaths :: "string list list"
  imagePullSecretPaths :: "string list list"
  serviceAccountNamePaths :: "string list list"

subsection \<open>The tables\<close>

definition podContainerPaths :: "string list list" where
  "podContainerPaths =
     [[''spec'', ''initContainers''], [''spec'', ''containers''], [''spec'', ''ephemeralContainers'']]"

definition podTemplateContainerPaths :: "string list list" where
  "podTemplateContainerPaths =
     [[''spec'', ''template'', ''spec'', ''initContainers''], [''spec'', ''template'', ''spec'', ''containers'']]"

definition cronJobContainerPaths :: "string list list" where
  "cronJobContainerPaths =
     [[''spec'', ''jobTemplate'', ''spec'', ''template'', ''spec'', ''initContainers''],
      [''spec'', ''jobTemplate'', ''spec'', ''template'', ''spec'', ''containers'']]"

definition podImagePullSecretPaths :: "string list list" where
  "podImagePullSecretPaths = [[''spec'', ''imagePullSecrets'']]"

definition podServiceAccountNamePaths :: "string list list" where
  "podServiceAccountNamePaths = [[''spec'', ''serviceAccountName'']]"

definition podTemplateImagePullSecretPaths :: "string list list" where
  "podTemplateImagePullSecretPaths = [[''spec'', ''template'', ''spec'', ''imagePullSecrets'']]"

definition podTemplateServiceAccountNamePaths :: "string list list" where
  "podTemplateServiceAccountNamePaths = [[''spec'', ''template'', ''spec'', ''serviceAccountName'']]"

definition cronJobImagePullSecretPaths :: "string list list" where
  "cronJobImagePullSecretPaths =
     [[''spec'', ''jobTemplate'', ''spec'', ''template'', ''spec'', ''imagePullSecrets'']]"

definition cronJobServiceAccountNamePaths :: "string list list" where
  "cronJobServiceAccountNamePaths =
     [[''spec'', ''jobTemplate'', ''spec'', ''template'', ''spec'', ''serviceAccountName'']]"

definition pod_template_resource :: "string \<Rightarrow> string \<Rightarrow> string \<Rightarrow> watchedResource" where
  "pod_template_resource obj grp kind =
     \<lparr> wr_object = TypedObject obj,
       groupVersionKind = \<lparr> Group = grp, Version = ''v1'', Kind = kind \<rparr>,
       containerPaths = podTemplateContainerPaths,
       imagePullSecretPaths = podTemplateImagePullSecretPaths,
       serviceAccountNamePaths = podTemplateServiceAccountNamePaths \<rparr>"

definition builtinResources :: "watchedResource list" where
  "builtinResources =
   [\<lparr> wr_object = TypedObject ''corev1.Pod'',
      groupVersionKind = \<lparr> Group = '''', Version = ''v1'', Kind = ''Pod'' \<rparr>,
      containerPaths = podContainerPaths,
      imagePullSecretPaths = podImagePullSecretPaths,
      serviceAccountNamePaths = podServiceAccountNamePaths \<rparr>,
    pod_template_resource ''appsv1.Deployment'' ''apps'' ''Deployment'',
    pod_template_resource ''appsv1.StatefulSet'' ''apps'' ''StatefulSet'',
    pod_template_resource ''appsv1.DaemonSet'' ''apps'' ''DaemonSet'',
    pod_template_resource ''batchv1.Job'' ''batch'' ''Job'',
    \<lparr> wr_object = TypedObject ''batchv1.CronJob'',
      groupVersionKind = \<lparr> Group = ''batch'', Version = ''v1'', Kind = ''CronJob'' \<rparr>,
      containerPaths = cronJobContainerPaths,
      imagePullSecretPaths = cronJobImagePullSecretPaths,
      serviceAccountNamePaths = cronJobServiceAccountNamePaths \<rparr>]"

record known_resource =
  kr_group :: string
  kr_resource :: string
  kr_kind :: string
  kr_containerPaths :: "string list list"
  kr_imagePullSecretPaths :: "string list list"
  kr_serviceAccountNamePaths :: "string list list"

definition knownAdditionalResources :: "known_resource list" where
  "knownAdditionalResources =
   [
    \<lparr> kr_group = ''tekton.dev'', kr_resource = ''tasks'', kr_kind = ''Task'',
      kr_containerPaths = [[''spec'', ''steps''], [''spec'', ''sidecars'']],
      kr_imagePullSecretPaths = [],
      kr_serviceAccountNamePaths = [[''spec'', ''serviceAccountName'']] \<rparr>,
    \<lparr> kr_group = ''tekton.dev'', kr_resource = ''taskruns'', kr_kind = ''TaskRun'',
      kr_containerPaths = [[''spec'', ''taskSpec'', ''steps''], [''spec'', ''taskSpec'', ''sidecars'']],
      kr_imagePullSecretPaths = [[''spec'', ''podTemplate'', ''imagePullSecrets'']],
      kr_serviceAccountNamePaths = [[''spec'', ''serviceAccountName'']] \<rparr>,
    \<lparr> kr_group = ''serving.knative.dev'', kr_resource = ''services'', kr_kind = ''Service'',
      kr_containerPaths = [[''spec'', ''template'', ''spec'', ''containers''], [''spec'', ''template'', ''spec'', ''initContainers'']],
      kr_imagePullSecretPaths = podTemplateImagePullSecretPaths,
      kr_serviceAccountNamePaths = podTemplateServiceAccountNamePaths \<rparr>,
    \<lparr> kr_group = ''serving.knative.dev'', kr_resource = ''revisions'', kr_kind = ''Revision'',
      kr_containerPaths = [[''spec'', ''containers''], [''spec'', ''initContainers'']],
      kr_imagePullSecretPaths = podImagePullSecretPaths,
      kr_serviceAccountNamePaths = podServiceAccountNamePaths \<rparr>,
    \<lparr> kr_group = ''argoproj.io'', kr_resource = ''workflows'', kr_kind = ''Workflow'',
      kr_containerPaths = [[''spec'', ''templates'', ''*'', ''container''], [''spec'', ''templates'', ''*'', ''initContainers''], [''spec'', ''templates'', ''*'', ''sidecars''], [''spec'', ''templates'', ''*'', ''script'']],
      kr_imagePullSecretPaths = podImagePullSecretPaths,
      kr_serviceAccountNamePaths = podServiceAccountNamePaths \<rparr>,
    \<lparr> kr_group = ''argoproj.io'', kr_resource = ''workflowtemplates'', kr_kind = ''WorkflowTemplate'',
      kr_containerPaths = [[''spec'', ''templates'', ''*'', ''container''], [''spec'', ''templates'', ''*'', ''initContainers''], [''spec'', ''templates'', ''*'', ''sidecars''], [''spec'', ''templates'', ''*'', ''script'']],
      kr_imagePullSecretPaths = podImagePullSecretPaths,
      kr_serviceAccountNamePaths = podServiceAccountNamePaths \<rparr>,
    \<lparr> kr_group = ''argoproj.io'', kr_resource = ''clusterworkflowtemplates'', kr_kind = ''ClusterWorkflowTemplate'',
      kr_containerPaths = [[''spec'', ''templates'', ''*'', ''container''], [''spec'', ''templates'', ''*'', ''initContainers''], [''spec'', ''templates'', ''*'', ''sidecars''], [''spec'', ''templates'', ''*'', ''script'']],
      kr_imagePullSecretPaths = podImagePullSecretPaths,
      kr_serviceAccountNamePaths = podServiceAccountNamePaths \<rparr>,
    \<lparr> kr_group = ''argoproj.io'', kr_resource = ''cronworkflows'', kr_kind = ''CronWorkflow'',
      kr_containerPaths = [[''spec'', ''workflowSpec'', ''templates'', ''*'', ''container''], [''spec'', ''workflowSpec'', ''templates'', ''*'', ''initContainers''], [''spec'', ''workflowSpec'', ''templates'', ''*'', ''sidecars''], [''spec'', ''workflowSpec'', ''templates'', ''*'', ''script'']],
      kr_imagePullSecretPaths = [[''spec'', ''workflowSpec'', ''imagePullSecrets'']],
      kr_serviceAccountNamePaths = [[''spec'', ''workflowSpec'', ''serviceAccountName'']] \<rparr>
   ]"

subsection \<open>Discovery\<close>

record APIResourceList =
  GroupVersion :: string
  APIResources :: "(string \<times> string) list"

text \<open>\<open>ServerPreferredResources\<close> may return lists and an error together; \<open>directList gvk\<close> is the error
  of the test \<open>list\<close>, if any.\<close>

record discovery_env =
  NewDiscoveryClient_err :: "error option"
  ServerPreferredResources :: "APIResourceList list \<times> error option"
  ParseGroupVersion :: "string \<Rightarrow> (string \<times> string) outcome"
  client_New_err :: "error option"
  directList :: "GVK \<Rightarrow> error option"

type_synonym available = "string \<rightharpoonup> (string \<rightharpoonup> string \<times> string)"

text \<open>The lookup table: group, resource name, (version, kind); a later entry overwrites.\<close>

fun add_resources :: "string \<Rightarrow> string \<Rightarrow> (string \<times> string) list \<Rightarrow> available \<Rightarrow> available" where
  "add_resources grp version [] av = av"
| "add_resources grp version ((name, kind) # rs) av =
     add_resources grp version rs
       (av(grp \<mapsto> (case av grp of None \<Rightarrow> Map.empty | Some m \<Rightarrow> m)(name \<mapsto> (version, kind))))"

fun build_available :: "discovery_env \<Rightarrow> APIResourceList list \<Rightarrow> available \<Rightarrow> available" where
  "build_available D [] av = av"
| "build_available D (rl # rls) av =
     (case ParseGroupVersion D (GroupVersion rl) of
        Ok (grp, version) \<Rightarrow>
          build_available D rls
            (add_resources grp version (APIResources rl)
              (case av grp of None \<Rightarrow> av(grp \<mapsto> Map.empty) | Some _ \<Rightarrow> av))
      | _ \<Rightarrow> build_available D rls av)"

definition discovered :: "known_resource \<Rightarrow> GVK \<Rightarrow> watchedResource" where
  "discovered known gvk =
     \<lparr> wr_object = UnstructuredObject gvk,
       groupVersionKind = gvk,
       containerPaths = kr_containerPaths known,
       imagePullSecretPaths = kr_imagePullSecretPaths known,
       serviceAccountNamePaths = kr_serviceAccountNamePaths known \<rparr>"

fun watch_known :: "discovery_env \<Rightarrow> available \<Rightarrow> known_resource list \<Rightarrow> watchedResource list" where
  "watch_known D av [] = []"
| "watch_known D av (known # rest) =
     (case av (kr_group known) of
        None \<Rightarrow> watch_known D av rest
      | Some groupResources \<Rightarrow>
        (case groupResources (kr_resource known) of
           None \<Rightarrow> watch_known D av rest
         | Some (version, kind) \<Rightarrow>
             (let gvk = \<lparr> Group = kr_group known, Version = version, Kind = kind \<rparr>
              in if directList D gvk \<noteq> None then watch_known D av rest
                 else discovered known gvk # watch_known D av rest)))"

definition discoverAdditionalResources :: "discovery_env \<Rightarrow> watchedResource list outcome" where
  "discoverAdditionalResources D =
     (case NewDiscoveryClient_err D of
        Some e \<Rightarrow> Err (Errorf ''creating discovery client'' (Some e))
      | None \<Rightarrow>
        (case ServerPreferredResources D of
           (resourceLists, err) \<Rightarrow>
             if err \<noteq> None \<and> length resourceLists = 0
             then Err (Errorf ''fetching server resources'' err)
             else
               (let av = build_available D resourceLists Map.empty in
                case client_New_err D of
                  Some e \<Rightarrow> Err (Errorf ''creating direct client'' (Some e))
                | None \<Rightarrow> Ok (watch_known D av knownAdditionalResources))))"

subsection \<open>Lemmas\<close>

lemma watch_known_map_filter:
  "watch_known D av ks =
     List.map_filter (\<lambda>k.
       case av (kr_group k) of
         None \<Rightarrow> None
       | Some m \<Rightarrow> (case m (kr_resource k) of
           None \<Rightarrow> None
         | Some (v, kind) \<Rightarrow>
             if directList D \<lparr> Group = kr_group k, Version = v, Kind = kind \<rparr> = None
             then Some (discovered k \<lparr> Group = kr_group k, Version = v, Kind = kind \<rparr>) else None)) ks"
  by (induction ks) (auto simp: List.map_filter_simps Let_def split: option.split)

lemma watch_known_iff:
  "r \<in> set (watch_known D av ks) \<longleftrightarrow>
     (\<exists>k \<in> set ks. \<exists>m v kind. av (kr_group k) = Some m \<and> m (kr_resource k) = Some (v, kind)
        \<and> directList D \<lparr> Group = kr_group k, Version = v, Kind = kind \<rparr> = None
        \<and> r = discovered k \<lparr> Group = kr_group k, Version = v, Kind = kind \<rparr>)"
  by (induction ks) (auto simp: Let_def split: option.splits)

lemma add_resources_lookup:
  "(case add_resources g v rs av g' of None \<Rightarrow> None | Some m \<Rightarrow> m n) =
     (if g' = g \<and> n \<in> fst ` set rs
      then map_option (Pair v) (map_of (rev rs) n)
      else (case av g' of None \<Rightarrow> None | Some m \<Rightarrow> m n))"
proof (induction rs arbitrary: av)
  case Nil
  then show ?case by simp
next
  case (Cons r rs)
  obtain name kind where "r = (name, kind)" by fastforce
  with Cons show ?case
    by (auto simp: map_add_def split: option.splits)
      (force simp: map_of_eq_None_iff image_iff dest!: map_of_SomeD)+
qed

lemma builtin_paths_clean:
  "r \<in> set builtinResources \<Longrightarrow> list_all clean_path (containerPaths r) \<and> distinct (containerPaths r)"
  by (auto simp: builtinResources_def pod_template_resource_def podContainerPaths_def
      podTemplateContainerPaths_def cronJobContainerPaths_def clean_path_def clean_seg_def)

lemma known_paths_clean:
  "k \<in> set knownAdditionalResources \<Longrightarrow> list_all clean_path (kr_containerPaths k) \<and> distinct (kr_containerPaths k)"
  by (auto simp: knownAdditionalResources_def clean_path_def clean_seg_def)

lemma discovered_from_known:
  "discoverAdditionalResources D = Ok rs \<Longrightarrow> r \<in> set rs \<Longrightarrow>
     \<exists>k \<in> set knownAdditionalResources. \<exists>gvk. r = discovered k gvk \<and> Group gvk = kr_group k"
  by (fastforce simp: discoverAdditionalResources_def Let_def watch_known_iff
      split: option.splits prod.splits if_splits)


subsection \<open>Properties\<close>

text \<open>The groups the lookup table has, and what it holds for a resource: the last entry of that name in
  the last list that parses to the group.\<close>

definition offered :: "discovery_env \<Rightarrow> APIResourceList list \<Rightarrow> string \<Rightarrow> string \<Rightarrow> (string \<times> string) list" where
  "offered D rls g n =
     concat (map (\<lambda>rl. case ParseGroupVersion D (GroupVersion rl) of
                   Ok (grp, version) \<Rightarrow> if grp = g then map (\<lambda>(_, kind). (version, kind)) (filter (\<lambda>(m, _). m = n) (APIResources rl)) else []
                 | _ \<Rightarrow> []) rls)"

definition table :: "available \<Rightarrow> string \<Rightarrow> string \<Rightarrow> (string \<times> string) option" where
  "table av g n = (case av g of None \<Rightarrow> None | Some m \<Rightarrow> m n)"

definition last_opt :: "'a list \<Rightarrow> 'a option \<Rightarrow> 'a option" where
  "last_opt xs d = (if xs = [] then d else Some (last xs))"

lemma last_opt_simps [simp]:
  "last_opt [] d = d"
  "last_opt (x # xs) d = last_opt xs (Some x)"
  "last_opt (xs @ ys) d = last_opt ys (last_opt xs d)"
  by (simp_all add: last_opt_def)

lemma table_upd:
  "table (av(g \<mapsto> (case av g of None \<Rightarrow> Map.empty | Some m \<Rightarrow> m)(n \<mapsto> v))) g' n' =
     (if g' = g \<and> n' = n then Some v else table av g' n')"
  by (simp add: table_def split: option.split)

lemma table_add_resources:
  "table (add_resources grp version rs av) g n =
     last_opt (if grp = g then map (\<lambda>(_, kind). (version, kind)) (filter (\<lambda>(m, _). m = n) rs) else []) (table av g n)"
proof (induction rs arbitrary: av)
  case Nil
  then show ?case by simp
next
  case (Cons r rs)
  obtain m kind where "r = (m, kind)" by fastforce
  with Cons show ?case by (simp add: table_upd del: fun_upd_apply)
qed

lemma table_build_available:
  "table (build_available D rls av) g n = last_opt (offered D rls g n) (table av g n)"
proof (induction rls arbitrary: av)
  case Nil
  then show ?case by (simp add: offered_def)
next
  case (Cons rl rls)
  have "table (case av grp of None \<Rightarrow> av(grp \<mapsto> Map.empty) | Some _ \<Rightarrow> av) g n = table av g n" for grp
    by (simp add: table_def split: option.split)
  with Cons show ?case
    by (auto simp: offered_def table_add_resources split: outcome.split)
qed

text \<open>C23. Discovery is exact: of the known custom resources it watches, in their order, those the API
  server offers and the exporter may list, at the version and kind the server reported last; a
  partial failure of discovery is not an error as long as some list came back.\<close>

theorem discovery_exact:
  assumes "NewDiscoveryClient_err D = None" "client_New_err D = None"
    and "ServerPreferredResources D = (rls, err)" "err = None \<or> rls \<noteq> []"
  shows "discoverAdditionalResources D =
     Ok (List.map_filter (\<lambda>known.
           case last_opt (offered D rls (kr_group known) (kr_resource known)) None of
             None \<Rightarrow> None
           | Some (version, kind) \<Rightarrow>
               if directList D \<lparr> Group = kr_group known, Version = version, Kind = kind \<rparr> = None
               then Some (discovered known \<lparr> Group = kr_group known, Version = version, Kind = kind \<rparr>) else None)
         knownAdditionalResources)"
proof -
  have known: "watch_known D av ks = List.map_filter (\<lambda>known.
           case table av (kr_group known) (kr_resource known) of
             None \<Rightarrow> None
           | Some (version, kind) \<Rightarrow>
               if directList D \<lparr> Group = kr_group known, Version = version, Kind = kind \<rparr> = None
               then Some (discovered known \<lparr> Group = kr_group known, Version = version, Kind = kind \<rparr>) else None) ks" for av ks
    by (induction ks) (auto simp: List.map_filter_simps Let_def table_def split: option.split)
  have "table Map.empty g n = None" for g n by (simp add: table_def)
  then show ?thesis
    using assms by (auto simp: discoverAdditionalResources_def Let_def known table_build_available)
qed

definition example_discovery :: discovery_env where
  "example_discovery =
     \<lparr> NewDiscoveryClient_err = None,
       ServerPreferredResources =
         ([\<lparr> GroupVersion = ''tekton.dev/v1'', APIResources = [(''tasks'', ''Task''), (''taskruns'', ''TaskRun'')] \<rparr>],
          Some (External ''partial'')),
       ParseGroupVersion = (\<lambda>_. Ok (''tekton.dev'', ''v1'')), client_New_err = None,
       directList = (\<lambda>gvk. if Kind gvk = ''Task'' then None else Some (External ''forbidden'')) \<rparr>"

theorem discovery_exact_witness:
  "discoverAdditionalResources example_discovery =
     Ok [discovered (hd knownAdditionalResources) \<lparr> Group = ''tekton.dev'', Version = ''v1'', Kind = ''Task'' \<rparr>]"
  using discovery_exact [of example_discovery "fst (ServerPreferredResources example_discovery)"
      "snd (ServerPreferredResources example_discovery)"]
  by (simp add: example_discovery_def offered_def knownAdditionalResources_def List.map_filter_simps)

text \<open>C24. Every resource that can ever be watched, built in or discovered, has different container paths
  made of plain field names, so that the JSONPaths of its containers are unambiguous.\<close>

theorem watched_resources_clean:
  assumes "discoverAdditionalResources D = Ok additional" "r \<in> set (builtinResources @ additional)"
  shows "list_all clean_path (containerPaths r) \<and> distinct (containerPaths r)
     \<and> distinct (map JSONPath (containerSpecs L obj (containerPaths r)))"
proof -
  have "list_all clean_path (containerPaths r) \<and> distinct (containerPaths r)"
  proof (cases "r \<in> set builtinResources")
    case True
    then show ?thesis by (rule builtin_paths_clean)
  next
    case False
    then obtain k gvk where "k \<in> set knownAdditionalResources" "r = discovered k gvk"
      using discovered_from_known [OF assms(1), of r] assms(2) by auto
    then show ?thesis using known_paths_clean by (simp add: discovered_def)
  qed
  then show ?thesis using distinct_containerSpecs by blast
qed

theorem watched_resources_clean_witness:
  "distinct (map JSONPath (containerSpecs example_lib example_obj (containerPaths (hd builtinResources))))"
proof -
  have "is_Ok (discoverAdditionalResources example_discovery)"
    by (simp add: discoverAdditionalResources_def example_discovery_def Let_def)
  then obtain additional where "discoverAdditionalResources example_discovery = Ok additional"
    by (auto simp: is_Ok_iff)
  moreover have "hd builtinResources \<in> set (builtinResources @ additional)" by (simp add: builtinResources_def)
  ultimately show ?thesis using watched_resources_clean by blast
qed

end
