(* ===== verification/Utf8.thy ===== *)
theory Utf8
  imports Go_Base
begin

section \<open>UTF-8 (Go's \<open>unicode/utf8\<close>)\<close>

text \<open>
  A Go string is any sequence of bytes; Prometheus accepts a label value only when it is valid
  UTF-8. \<open>valid_utf8\<close> is \<open>utf8.ValidString\<close>, \<open>RuneStart\<close> is \<open>utf8.RuneStart\<close>. A valid
  string is a concatenation of runes (\<open>valid_utf8_runes\<close>), and its rune starts are the
  boundaries between them (\<open>rune_boundary\<close>).
\<close>

definition byte :: "char \<Rightarrow> nat" where
  "byte c = of_char c"

definition cont :: "char \<Rightarrow> bool" where
  "cont c \<longleftrightarrow> 128 \<le> byte c \<and> byte c < 192"

definition RuneStart :: "char \<Rightarrow> bool" where
  "RuneStart c \<longleftrightarrow> \<not> cont c"

text \<open>The second byte of a three- or four-byte rune has a narrower range after some first bytes
  (no overlong forms, no surrogates, nothing above U+10FFFF).\<close>

definition second_ok :: "nat \<Rightarrow> char \<Rightarrow> bool" where
  "second_ok b c \<longleftrightarrow>
     (if b = 224 then 160 \<le> byte c \<and> byte c < 192
      else if b = 237 then 128 \<le> byte c \<and> byte c < 160
      else if b = 240 then 144 \<le> byte c \<and> byte c < 192
      else if b = 244 then 128 \<le> byte c \<and> byte c < 144
      else cont c)"

text \<open>The width of the well-formed rune a string starts with, or 0.\<close>

fun rune_width :: "string \<Rightarrow> nat" where
  "rune_width [] = 0"
| "rune_width (c # cs) =
     (if byte c < 128 then 1
      else if byte c < 194 then 0
      else if byte c < 224 then (case cs of c1 # _ \<Rightarrow> if cont c1 then 2 else 0 | _ \<Rightarrow> 0)
      else if byte c < 240 then
        (case cs of c1 # c2 # _ \<Rightarrow> if second_ok (byte c) c1 \<and> cont c2 then 3 else 0 | _ \<Rightarrow> 0)
      else if byte c < 245 then
        (case cs of c1 # c2 # c3 # _ \<Rightarrow> if second_ok (byte c) c1 \<and> cont c2 \<and> cont c3 then 4 else 0 | _ \<Rightarrow> 0)
      else 0)"

function valid_utf8 :: "string \<Rightarrow> bool" where
  "valid_utf8 s =
     (if s = [] then True
      else if rune_width s = 0 then False
      else valid_utf8 (drop (rune_width s) s))"
  by pat_completeness auto
termination
  by (relation "measure length") auto

declare valid_utf8.simps [simp del]

lemma valid_utf8_Nil [simp]: "valid_utf8 []"
  by (subst valid_utf8.simps) simp

lemma second_ok_cont: "second_ok b c \<Longrightarrow> cont c"
  by (auto simp: second_ok_def cont_def split: if_splits)

definition is_rune :: "string \<Rightarrow> bool" where
  "is_rune r \<longleftrightarrow> r \<noteq> [] \<and> rune_width r = length r"

lemma rune_width_le: "rune_width s \<le> length s"
  by (cases s) (auto split: list.splits)

lemma rune_width_le_4: "rune_width s \<le> 4"
  by (cases s) (auto split: list.splits)

lemma rune_width_append: "rune_width s \<noteq> 0 \<Longrightarrow> rune_width (s @ t) = rune_width s"
  by (cases s) (auto split: list.splits if_splits)

lemma rune_width_take: "rune_width s \<noteq> 0 \<Longrightarrow> rune_width (take (rune_width s) s) = rune_width s"
  by (cases s) (auto split: list.splits if_splits)

lemma is_rune_take: "rune_width s \<noteq> 0 \<Longrightarrow> is_rune (take (rune_width s) s)"
  using rune_width_le [of s] by (auto simp: is_rune_def rune_width_take)

lemma is_rune_bytes:
  assumes "is_rune r"
  obtains c cs where "r = c # cs" "RuneStart c" "list_all cont cs" "length cs \<le> 3"
proof (cases r)
  case Nil
  with assms show ?thesis by (simp add: is_rune_def)
next
  case (Cons c cs)
  with assms that show ?thesis
    by (auto simp: is_rune_def RuneStart_def cont_def dest!: second_ok_cont
        split: if_splits list.splits)
qed

lemma valid_utf8_rune: "is_rune r \<Longrightarrow> valid_utf8 (r @ s) = valid_utf8 s"
  by (subst valid_utf8.simps) (auto simp: is_rune_def rune_width_append)

lemma valid_utf8_runes: "valid_utf8 s \<longleftrightarrow> (\<exists>rs. list_all is_rune rs \<and> s = concat rs)"
proof
  show "valid_utf8 s \<Longrightarrow> \<exists>rs. list_all is_rune rs \<and> s = concat rs"
  proof (induction s rule: valid_utf8.induct)
    case (1 s)
    show ?case
    proof (cases "s = []")
      case True
      then show ?thesis by (auto intro: exI [of _ "[]"])
    next
      case False
      with "1.prems" have w: "rune_width s \<noteq> 0" "valid_utf8 (drop (rune_width s) s)"
        by (simp_all add: valid_utf8.simps [of s] split: if_splits)
      with "1.IH" False obtain rs where "list_all is_rune rs" "drop (rune_width s) s = concat rs"
        by blast
      then have "list_all is_rune (take (rune_width s) s # rs) \<and> s = concat (take (rune_width s) s # rs)"
        using is_rune_take [OF w(1)] by (simp, metis append_take_drop_id)
      then show ?thesis by blast
    qed
  qed
next
  show "\<exists>rs. list_all is_rune rs \<and> s = concat rs \<Longrightarrow> valid_utf8 s"
  proof (elim exE conjE)
    fix rs
    assume "list_all is_rune rs" "s = concat rs"
    then show "valid_utf8 s"
      by (induction rs arbitrary: s) (auto simp: valid_utf8_rune)
  qed
qed

lemma valid_utf8_append: "valid_utf8 s \<Longrightarrow> valid_utf8 t \<Longrightarrow> valid_utf8 (s @ t)"
  unfolding valid_utf8_runes by (metis concat_append list_all_append)

lemma valid_utf8_ascii: "list_all (\<lambda>c. byte c < 128) s \<Longrightarrow> valid_utf8 s"
proof (induction s)
  case (Cons c s)
  then have "is_rune [c]" by (simp add: is_rune_def)
  with Cons show ?case using valid_utf8_rune [of "[c]" s] by simp
qed simp

text \<open>A byte that starts a rune stands at a boundary between runes.\<close>

lemma rune_boundary:
  "list_all is_rune rs \<Longrightarrow> k < length (concat rs) \<Longrightarrow> RuneStart (concat rs ! k) \<Longrightarrow>
     \<exists>rs1 rs2. rs = rs1 @ rs2 \<and> take k (concat rs) = concat rs1"
proof (induction rs arbitrary: k)
  case Nil
  then show ?case by simp
next
  case (Cons r rs)
  then obtain c cs where r: "r = c # cs" "list_all cont cs"
    by (auto elim: is_rune_bytes)
  show ?case
  proof (cases "k < length r")
    case True
    have "k = 0"
    proof (rule ccontr)
      assume "k \<noteq> 0"
      with True r have "concat (r # rs) ! k \<in> set cs" by (auto simp: nth_append nth_Cons')
      with r Cons.prems show False by (auto simp: list_all_iff RuneStart_def)
    qed
    then show ?thesis by (intro exI [of _ "[]"] exI [of _ "r # rs"]) simp
  next
    case False
    with Cons.prems have "k - length r < length (concat rs)" "RuneStart (concat rs ! (k - length r))"
      by (auto simp: nth_append)
    with Cons.IH Cons.prems(1) obtain rs1 rs2 where "rs = rs1 @ rs2" "take (k - length r) (concat rs) = concat rs1"
      using Cons.IH [of "k - length r"] by (metis list.pred_inject(2))
    with False have "r # rs = (r # rs1) @ rs2 \<and> take k (concat (r # rs)) = concat (r # rs1)"
      by simp
    then show ?thesis by blast
  qed
qed

lemma valid_utf8_take:
  assumes "valid_utf8 s" "k < length s" "RuneStart (s ! k)"
  shows "valid_utf8 (take k s)"
proof -
  obtain rs where rs: "list_all is_rune rs" "s = concat rs" using assms(1) valid_utf8_runes by blast
  then obtain rs1 rs2 where "rs = rs1 @ rs2" "take k s = concat rs1"
    using rune_boundary assms by blast
  with rs show ?thesis unfolding valid_utf8_runes by (auto intro!: exI [of _ rs1])
qed

text \<open>In a valid string a rune starts at every fourth byte at the latest.\<close>

lemma rune_start_near:
  "list_all is_rune rs \<Longrightarrow> k < length (concat rs) \<Longrightarrow>
     \<exists>j \<le> k. k \<le> j + 3 \<and> RuneStart (concat rs ! j)"
proof (induction rs arbitrary: k)
  case Nil
  then show ?case by simp
next
  case (Cons r rs)
  then obtain c cs where r: "r = c # cs" "RuneStart c" "length cs \<le> 3"
    by (auto elim: is_rune_bytes)
  show ?case
  proof (cases "k < length r")
    case True
    with r show ?thesis by (intro exI [of _ 0]) auto
  next
    case False
    with Cons.prems have "k - length r < length (concat rs)" by simp
    with Cons.IH Cons.prems(1) obtain j
      where "j \<le> k - length r" "k - length r \<le> j + 3" "RuneStart (concat rs ! j)"
      by auto
    with False show ?thesis by (intro exI [of _ "j + length r"]) (auto simp: nth_append)
  qed
qed

end
