(* ===== verification/Prometheus.thy ===== *)
theory Prometheus
  imports Utf8 "HOL-Library.Multiset"
begin

section \<open>What the collectors send to Prometheus\<close>

text \<open>
  The metric descriptions and samples both exporters build with client_golang. \<open>fqName\<close> holds the
  three arguments of \<open>BuildFQName\<close>; help texts are left out. A sample's value is the number a
  \<open>float64\<close> conversion gave, or \<open>Duration.Seconds()\<close>. \<open>MustNewConstMetric\<close> panics when the
  library rejects the label values: that test is the parameter \<open>ok\<close>, and \<open>label_contract\<close> its
  documented behaviour (as many values as label names, each valid UTF-8). A panic in \<open>Collect\<close>
  ends it, so the channel is either open, or crashed with what was sent before.
\<close>

record Desc =
  fqName :: "string \<times> string \<times> string"
  variableLabels :: "string list"

datatype gauge = Float int | Seconds duration

record metric =
  m_desc :: Desc
  m_value :: gauge
  m_labels :: "string list"

datatype chan = Open "metric list" | Crashed "metric list"

fun sent :: "chan \<Rightarrow> metric list" where
  "sent (Open ms) = ms"
| "sent (Crashed ms) = ms"

fun crashed :: "chan \<Rightarrow> bool" where
  "crashed (Open _) = False"
| "crashed (Crashed _) = True"

fun crash :: "chan \<Rightarrow> chan" where
  "crash ch = Crashed (sent ch)"

type_synonym label_check = "nat \<Rightarrow> string list \<Rightarrow> bool"

definition label_contract :: "label_check \<Rightarrow> bool" where
  "label_contract ok \<longleftrightarrow> (\<forall>n values. ok n values \<longleftrightarrow> length values = n \<and> list_all valid_utf8 values)"

definition example_labels :: label_check where
  "example_labels n values \<longleftrightarrow> length values = n \<and> list_all valid_utf8 values"

lemma example_labels_contract: "label_contract example_labels"
  by (simp add: label_contract_def example_labels_def)

text \<open>\<open>ch <- MustNewConstMetric(desc, GaugeValue, value, labels...)\<close>.\<close>

definition send :: "label_check \<Rightarrow> Desc \<Rightarrow> gauge \<Rightarrow> string list \<Rightarrow> chan \<Rightarrow> chan" where
  "send ok desc v labels ch =
     (case ch of
        Crashed ms \<Rightarrow> Crashed ms
      | Open ms \<Rightarrow>
          if ok (length (variableLabels desc)) labels
          then Open (ms @ [\<lparr> m_desc = desc, m_value = v, m_labels = labels \<rparr>])
          else Crashed ms)"

text \<open>A series is a description with its label values; a registry rejects a scrape that has
  the same series twice.\<close>

definition series :: "metric \<Rightarrow> Desc \<times> string list" where
  "series m = (m_desc m, m_labels m)"

definition good_labels :: "Desc \<Rightarrow> string list \<Rightarrow> bool" where
  "good_labels desc labels \<longleftrightarrow>
     length labels = length (variableLabels desc) \<and> list_all valid_utf8 labels"

lemma send_Crashed [simp]: "send ok desc v labels (Crashed ms) = Crashed ms"
  by (simp add: send_def)

lemma send_Open:
  "label_contract ok \<Longrightarrow> send ok desc v labels (Open ms) =
     (if good_labels desc labels
      then Open (ms @ [\<lparr> m_desc = desc, m_value = v, m_labels = labels \<rparr>]) else Crashed ms)"
  by (simp add: send_def label_contract_def good_labels_def)

lemma send_set:
  "set (sent (send ok desc v labels ch)) \<subseteq>
     insert \<lparr> m_desc = desc, m_value = v, m_labels = labels \<rparr> (set (sent ch))"
  by (cases ch) (auto simp: send_def)

lemma send_descs: "m_desc ` set (sent (send ok desc v labels ch)) \<subseteq> insert desc (m_desc ` set (sent ch))"
  by (cases ch) (auto simp: send_def)

lemma send_grows: "\<exists>ms. sent (send ok desc v labels ch) = sent ch @ ms"
  by (cases ch) (auto simp: send_def)

subsection \<open>Sending the entries of a Go map\<close>

text \<open>
  The loop \<open>for k, v := range entries\<close> that sends one sample per allowed entry, which both
  exporters have; \<open>allow\<close> is the allowlist test, \<open>f\<close> what the sender does to the value.
\<close>

fun send_entries ::
  "label_check \<Rightarrow> Desc \<Rightarrow> (string \<Rightarrow> bool) \<Rightarrow> (string \<Rightarrow> string) \<Rightarrow> string \<Rightarrow> (string \<times> string) list \<Rightarrow> chan \<Rightarrow> chan" where
  "send_entries ok desc allow f owner [] ch = ch"
| "send_entries ok desc allow f owner ((k, v) # rest) ch =
     (if \<not> allow k then send_entries ok desc allow f owner rest ch
      else send_entries ok desc allow f owner rest (send ok desc (Float 1) [owner, k, f v] ch))"

definition entry_metrics ::
  "Desc \<Rightarrow> (string \<Rightarrow> bool) \<Rightarrow> (string \<Rightarrow> string) \<Rightarrow> string \<Rightarrow> (string \<times> string) list \<Rightarrow> metric list" where
  "entry_metrics desc allow f owner entries =
     map (\<lambda>(k, v). \<lparr> m_desc = desc, m_value = Float 1, m_labels = [owner, k, f v] \<rparr>)
       (filter (\<lambda>(k, v). allow k) entries)"

lemma send_entries_Crashed [simp]: "send_entries ok desc allow f owner entries (Crashed ms) = Crashed ms"
  by (induction entries) auto

lemma send_entries_descs:
  "m_desc ` set (sent (send_entries ok desc allow f owner entries ch)) \<subseteq> insert desc (m_desc ` set (sent ch))"
proof (induction entries arbitrary: ch)
  case Nil
  then show ?case by auto
next
  case (Cons e entries)
  obtain k v where e: "e = (k, v)" by fastforce
  show ?case
  proof (cases "allow k")
    case True
    have "m_desc ` set (sent (send_entries ok desc allow f owner (e # entries) ch))
        \<subseteq> insert desc (m_desc ` set (sent (send ok desc (Float 1) [owner, k, f v] ch)))"
      using Cons.IH True by (simp add: e)
    also have "\<dots> \<subseteq> insert desc (m_desc ` set (sent ch))"
      using send_descs [of ok desc "Float 1" "[owner, k, f v]" ch] by blast
    finally show ?thesis .
  next
    case False
    with Cons.IH [of ch] show ?thesis by (simp add: e)
  qed
qed

lemma send_entries_Open:
  assumes "label_contract ok" "length (variableLabels desc) = 3"
    and "list_all (\<lambda>(k, v). allow k \<longrightarrow> valid_utf8 k \<and> valid_utf8 (f v)) entries"
    and "valid_utf8 owner"
  shows "send_entries ok desc allow f owner entries (Open ms) =
     Open (ms @ entry_metrics desc allow f owner entries)"
  using assms(3)
proof (induction entries arbitrary: ms)
  case Nil
  then show ?case by (simp add: entry_metrics_def)
next
  case (Cons e entries)
  obtain k v where e: "e = (k, v)" by fastforce
  with Cons show ?case
    by (auto simp: entry_metrics_def send_Open [OF assms(1)] good_labels_def assms(2,4))
qed

lemma distinct_entry_metrics:
  "distinct (map fst entries) \<Longrightarrow> distinct (map series (entry_metrics desc allow f owner entries))"
  by (induction entries) (auto simp: entry_metrics_def series_def image_iff)

lemma entry_metrics_mset_perm:
  "mset entries = mset entries' \<Longrightarrow>
     mset (entry_metrics desc allow f owner entries) = mset (entry_metrics desc allow f owner entries')"
  by (simp add: entry_metrics_def)

subsection \<open>Steps of a scrape\<close>

lemma descs_step:
  assumes "m_desc ` set (sent ch) \<subseteq> D" "desc \<in> D"
  shows "m_desc ` set (sent (send ok desc v labels ch)) \<subseteq> D"
    and "m_desc ` set (sent (send_entries ok desc allow f owner kvs ch)) \<subseteq> D"
  using assms send_descs [of ok desc v labels ch] send_entries_descs [of ok desc allow f owner kvs ch] by blast+

lemma sent_crash [simp]: "sent (crash ch) = sent ch"
  by simp

lemma distinct_map_append:
  "distinct (map f xs) \<Longrightarrow> distinct (map f ys) \<Longrightarrow> (\<And>x y. x \<in> set xs \<Longrightarrow> y \<in> set ys \<Longrightarrow> f x \<noteq> f y) \<Longrightarrow>
     distinct (map f (xs @ ys))"
  by (induction xs) auto

lemma send_plain:
  "label_contract ok \<Longrightarrow> variableLabels desc = [] \<Longrightarrow>
     send ok desc v [] (Open ms) = Open (ms @ [\<lparr> m_desc = desc, m_value = v, m_labels = [] \<rparr>])"
  by (simp add: send_Open good_labels_def)

subsection \<open>The contract of a collector\<close>

text \<open>
  What the registry relies on when an exporter is registered with it: it only sends metrics of the
  descriptions it announces, and no two of those have the same name. Then metrics of one name always
  have the same label names, which the text format requires.
\<close>

locale collector =
  fixes describe :: "Desc list"
    and collect :: "'i \<Rightarrow> chan"
  assumes described: "m \<in> set (sent (collect i)) \<Longrightarrow> m_desc m \<in> set describe"
    and names: "distinct (map fqName describe)"
begin

lemma same_name_same_desc:
  "m \<in> set (sent (collect i)) \<Longrightarrow> m' \<in> set (sent (collect j)) \<Longrightarrow> fqName (m_desc m) = fqName (m_desc m') \<Longrightarrow>
     m_desc m = m_desc m'"
  using described names by (auto simp: distinct_map inj_on_def)

end

end
