(* ===== verification/Cluster_Exporter.thy ===== *)
theory Cluster_Exporter
  imports Resources Prometheus
begin

section \<open>The cluster exporter (\<^verbatim>\<open>internal/clusterexporter/metrics.go\<close>)\<close>

text \<open>
  \<open>Collect\<close> lists every watched resource, walks over the containers, looks each image up in the
  cache, sends the metrics and evicts what no workload uses any more. Reconcilers and other scrapes
  use the cache at the same time: \<open>e_others n\<close> is what they do to it just before the \<open>n\<close>-th cache
  operation of this scrape. The API server, the accessors of an unstructured object and the parser
  of references are fields of \<open>collect_env\<close>.
\<close>

subsection \<open>The metrics\<close>

definition metricUp :: Desc where
  "metricUp = \<lparr> fqName = (''container_image'', ''cluster_exporter'', ''up''), variableLabels = [] \<rparr>"

definition metricContainerInfo :: Desc where
  "metricContainerInfo =
     \<lparr> fqName = (''container_image'', ''cluster'', ''container_info''),
       variableLabels = [''group'', ''version'', ''kind'', ''namespace'', ''name'', ''jsonpath'', ''image'', ''digest''] \<rparr>"

definition metricAnnotation :: Desc where
  "metricAnnotation =
     \<lparr> fqName = (''container_image'', ''cluster'', ''annotation''), variableLabels = [''digest'', ''key'', ''value''] \<rparr>"

definition metricLabel :: Desc where
  "metricLabel =
     \<lparr> fqName = (''container_image'', ''cluster'', ''label''), variableLabels = [''digest'', ''key'', ''value''] \<rparr>"

definition metricSize :: Desc where
  "metricSize = \<lparr> fqName = (''container_image'', ''cluster'', ''size_bytes''), variableLabels = [''digest''] \<rparr>"

definition metricCreated :: Desc where
  "metricCreated = \<lparr> fqName = (''container_image'', ''cluster'', ''created''), variableLabels = [''digest''] \<rparr>"

definition metricCacheOldestEntry :: Desc where
  "metricCacheOldestEntry =
     \<lparr> fqName = (''container_image'', ''cluster_exporter'', ''cache_oldest_entry_timestamp''), variableLabels = [] \<rparr>"

definition metricCacheDuration :: Desc where
  "metricCacheDuration =
     \<lparr> fqName = (''container_image'', ''cluster_exporter'', ''cache_duration_seconds''), variableLabels = [] \<rparr>"

lemmas cluster_descs = metricUp_def metricContainerInfo_def metricAnnotation_def metricLabel_def
  metricSize_def metricCreated_def metricCacheOldestEntry_def metricCacheDuration_def

definition Describe :: "Desc list" where
  "Describe =
     [metricUp, metricContainerInfo, metricAnnotation, metricLabel,
      metricSize, metricCreated, metricCacheOldestEntry, metricCacheDuration]"

subsection \<open>The exporter and its environment\<close>

record Exporter =
  Exp_Resources :: "watchedResource list"
  Exp_CacheDuration :: duration
  AnnotationAllowlist :: "string list"
  LabelAllowlist :: "string list"

record collect_env =
  e_epoch :: time
  e_List :: "nat \<Rightarrow> GVK \<Rightarrow> json_obj list outcome"
  e_GVK :: "json_obj \<Rightarrow> GVK"
  e_Namespace :: "json_obj \<Rightarrow> string"
  e_Name :: "json_obj \<Rightarrow> string"
  e_Parse :: "string \<Rightarrow> reference outcome"
  e_label_ok :: label_check
  e_others :: "nat \<Rightarrow> cache_event list"
  e_lib :: unstructured_lib

text \<open>The state of a scrape: what has been sent, the shared cache, the number of cache operations
  so far, and the three variables of the loop.\<close>

record 'c scrape =
  out :: chan
  shared :: 'c
  cache_ops_done :: nat
  activeRefs :: "reference list"
  oldestEntry :: time
  digests :: "string set"

fun allowed_from :: "string list \<Rightarrow> string \<Rightarrow> bool" where
  "allowed_from [] key = False"
| "allowed_from (k # ks) key = (if k = key then True else allowed_from ks key)"

definition allowed :: "string list \<Rightarrow> string \<Rightarrow> bool" where
  "allowed allowlist key = (if length allowlist = 0 then True else allowed_from allowlist key)"

text \<open>The operations of the others on the cache.\<close>

fun ops_step :: "'c cache_ops \<Rightarrow> 'c \<Rightarrow> cache_event \<Rightarrow> 'c" where
  "ops_step ops c (EvPut ref img now) = snd (op_Put ops c ref img now)"
| "ops_step ops c (EvEvict refs olderThan) = snd (op_Evict ops c refs olderThan)"

definition ops_run :: "'c cache_ops \<Rightarrow> 'c \<Rightarrow> cache_event list \<Rightarrow> 'c" where
  "ops_run ops c evs = foldl (ops_step ops) c evs"

subsection \<open>Collect\<close>

fun list_resources :: "collect_env \<Rightarrow> nat \<Rightarrow> watchedResource list \<Rightarrow> (watchedResource \<times> json_obj list) list outcome" where
  "list_resources E n [] = Ok []"
| "list_resources E n (r # rs) =
     (case e_List E n (groupVersionKind r) of
        Err e \<Rightarrow> Err e
      | Panic \<Rightarrow> Panic
      | Ok items \<Rightarrow>
          (case list_resources E (Suc n) rs of
             Ok rest \<Rightarrow> Ok ((r, items) # rest)
           | Err e \<Rightarrow> Err e
           | Panic \<Rightarrow> Panic))"

definition emit :: "collect_env \<Rightarrow> Desc \<Rightarrow> gauge \<Rightarrow> string list \<Rightarrow> 'c scrape \<Rightarrow> 'c scrape" where
  "emit E desc v labels st = st\<lparr> out := send (e_label_ok E) desc v labels (out st) \<rparr>"

text \<open>The image of a container: parse its reference, remember it as active, ask the cache.\<close>

definition lookup_image ::
  "collect_env \<Rightarrow> 'c cache_ops \<Rightarrow> ContainerSpec \<Rightarrow> 'c scrape \<Rightarrow> CachedContainerImage option \<times> 'c scrape" where
  "lookup_image E ops container st =
     (case e_Parse E (Image container) of
        Err _ \<Rightarrow> (None, st)
      | Panic \<Rightarrow> (None, st\<lparr> out := crash (out st) \<rparr>)
      | Ok ref \<Rightarrow>
          (let c = ops_run ops (shared st) (e_others E (cache_ops_done st));
               st1 = st\<lparr> activeRefs := activeRefs st @ [ref], shared := c,
                        cache_ops_done := Suc (cache_ops_done st) \<rparr>
           in case op_Get ops c ref of
                Ok cached \<Rightarrow> (Some cached, st1)
              | Err _ \<Rightarrow> (None, st1)
              | Panic \<Rightarrow> (None, st1\<lparr> out := crash (out st1) \<rparr>)))"

definition container_labels :: "collect_env \<Rightarrow> json_obj \<Rightarrow> ContainerSpec \<Rightarrow> string \<Rightarrow> string list" where
  "container_labels E item container digestStr =
     [Group (e_GVK E item), Version (e_GVK E item), Kind (e_GVK E item), e_Namespace E item, e_Name E item,
      JSONPath container, Image container, digestStr]"

text \<open>The metrics of one digest.\<close>

definition emit_digest :: "collect_env \<Rightarrow> Exporter \<Rightarrow> CachedContainerImage \<Rightarrow> 'c scrape \<Rightarrow> 'c scrape" where
  "emit_digest E X cached st =
     (let img = cached_img cached;
          st1 = emit E metricSize (Float (float64_of_int (Size img))) [Digest img] st;
          st2 = emit E metricCreated (Float (float64_of_int (Unix (Created img)))) [Digest img] st1;
          st3 = st2\<lparr> out := send_entries (e_label_ok E) metricAnnotation (allowed (AnnotationAllowlist X)) id
                             (Digest img) (Annotations img) (out st2) \<rparr>
      in st3\<lparr> out := send_entries (e_label_ok E) metricLabel (allowed (LabelAllowlist X)) id
                       (Digest img) (Labels img) (out st3) \<rparr>)"

definition collect_container ::
  "collect_env \<Rightarrow> 'c cache_ops \<Rightarrow> Exporter \<Rightarrow> json_obj \<Rightarrow> ContainerSpec \<Rightarrow> 'c scrape \<Rightarrow> 'c scrape" where
  "collect_container E ops X item container st =
     (case lookup_image E ops container st of
        (cached, st1) \<Rightarrow>
          let digestStr = (case cached of None \<Rightarrow> '''' | Some ci \<Rightarrow> Digest (cached_img ci));
              st2 = emit E metricContainerInfo (Float 1) (container_labels E item container digestStr) st1
          in case cached of
               None \<Rightarrow> st2
             | Some ci \<Rightarrow>
                 if Digest (cached_img ci) \<in> digests st2 then st2
                 else emit_digest E X ci
                   (st2\<lparr> digests := insert (Digest (cached_img ci)) (digests st2),
                         oldestEntry := (if IsZero (oldestEntry st2) \<or> Before (CachedTime ci) (oldestEntry st2)
                                         then CachedTime ci else oldestEntry st2) \<rparr>))"

text \<open>The three nested loops; a panic ends them.\<close>

fun collect_containers ::
  "collect_env \<Rightarrow> 'c cache_ops \<Rightarrow> Exporter \<Rightarrow> json_obj \<Rightarrow> ContainerSpec list \<Rightarrow> 'c scrape \<Rightarrow> 'c scrape" where
  "collect_containers E ops X item [] st = st"
| "collect_containers E ops X item (container # rest) st =
     (let st' = collect_container E ops X item container st
      in if crashed (out st') then st' else collect_containers E ops X item rest st')"

fun collect_items ::
  "collect_env \<Rightarrow> 'c cache_ops \<Rightarrow> Exporter \<Rightarrow> watchedResource \<Rightarrow> json_obj list \<Rightarrow> 'c scrape \<Rightarrow> 'c scrape" where
  "collect_items E ops X r [] st = st"
| "collect_items E ops X r (item # items) st =
     (let st' = collect_containers E ops X item (containerSpecs (e_lib E) item (containerPaths r)) st
      in if crashed (out st') then st' else collect_items E ops X r items st')"

fun collect_all ::
  "collect_env \<Rightarrow> 'c cache_ops \<Rightarrow> Exporter \<Rightarrow> (watchedResource \<times> json_obj list) list \<Rightarrow> 'c scrape \<Rightarrow> 'c scrape" where
  "collect_all E ops X [] st = st"
| "collect_all E ops X ((r, items) # rest) st =
     (let st' = collect_items E ops X r items st
      in if crashed (out st') then st' else collect_all E ops X rest st')"

definition start_scrape :: "chan \<Rightarrow> 'c \<Rightarrow> 'c scrape" where
  "start_scrape ch c =
     \<lparr> out = ch, shared = c, cache_ops_done = 0, activeRefs = [], oldestEntry = zero_time, digests = {} \<rparr>"

definition Collect :: "collect_env \<Rightarrow> 'c cache_ops \<Rightarrow> Exporter \<Rightarrow> 'c \<Rightarrow> chan \<times> 'c" where
  "Collect E ops X c =
     (let ch = send (e_label_ok E) metricCacheDuration (Seconds (Exp_CacheDuration X)) [] (Open []) in
      case list_resources E 0 (Exp_Resources X) of
        Panic \<Rightarrow> (crash ch, c)
      | Err e \<Rightarrow> (send (e_label_ok E) metricUp (Float 0) [] ch, c)
      | Ok all \<Rightarrow>
          (let st = collect_all E ops X all (start_scrape ch c) in
           if crashed (out st) then (out st, shared st)
           else
             let ch1 = send (e_label_ok E) metricCacheOldestEntry
                         (Float (float64_of_int (Unix (oldestEntry st)))) [] (out st);
                 c1 = ops_run ops (shared st) (e_others E (cache_ops_done st))
             in if crashed ch1 then (ch1, shared st)
                else (send (e_label_ok E) metricUp (Float 1) [] ch1,
                      snd (op_Evict ops c1 (activeRefs st) (e_epoch E)))))"


subsection \<open>The scrape as a list of visits\<close>

text \<open>
  What the loops do, said on lists: the containers in the order they are met (\<open>sites\<close>), for each the
  reference its image parses to and what the cache answered at that moment (\<open>visits\<close>), and from those
  the metrics (\<open>body\<close>), the images of digests not met before (\<open>fresh\<close>) and the oldest of them.
\<close>

type_synonym site = "json_obj \<times> ContainerSpec"
type_synonym visit = "site \<times> reference option \<times> CachedContainerImage option"

definition item_sites :: "collect_env \<Rightarrow> watchedResource \<Rightarrow> json_obj \<Rightarrow> site list" where
  "item_sites E r item = map (Pair item) (containerSpecs (e_lib E) item (containerPaths r))"

definition sites :: "collect_env \<Rightarrow> (watchedResource \<times> json_obj list) list \<Rightarrow> site list" where
  "sites E all = concat (map (\<lambda>(r, items). concat (map (item_sites E r) items)) all)"

fun visits :: "collect_env \<Rightarrow> 'c cache_ops \<Rightarrow> nat \<Rightarrow> 'c \<Rightarrow> site list \<Rightarrow> visit list" where
  "visits E ops n c [] = []"
| "visits E ops n c (s # ss) =
     (case e_Parse E (Image (snd s)) of
        Ok ref \<Rightarrow>
          (let c' = ops_run ops c (e_others E n)
           in (s, Some ref, case op_Get ops c' ref of Ok ci \<Rightarrow> Some ci | _ \<Rightarrow> None) # visits E ops (Suc n) c' ss)
      | _ \<Rightarrow> (s, None, None) # visits E ops n c ss)"

definition visit_digest :: "visit \<Rightarrow> string" where
  "visit_digest v = (case snd (snd v) of None \<Rightarrow> '''' | Some ci \<Rightarrow> Digest (cached_img ci))"

definition visit_refs :: "visit list \<Rightarrow> reference list" where
  "visit_refs vs = List.map_filter (\<lambda>v. fst (snd v)) vs"

definition info_metric :: "collect_env \<Rightarrow> visit \<Rightarrow> metric" where
  "info_metric E v =
     \<lparr> m_desc = metricContainerInfo, m_value = Float 1,
       m_labels = container_labels E (fst (fst v)) (snd (fst v)) (visit_digest v) \<rparr>"

definition digest_metrics :: "Exporter \<Rightarrow> CachedContainerImage \<Rightarrow> metric list" where
  "digest_metrics X ci =
     (let img = cached_img ci in
      [\<lparr> m_desc = metricSize, m_value = Float (float64_of_int (Size img)), m_labels = [Digest img] \<rparr>,
       \<lparr> m_desc = metricCreated, m_value = Float (float64_of_int (Unix (Created img))), m_labels = [Digest img] \<rparr>]
      @ entry_metrics metricAnnotation (allowed (AnnotationAllowlist X)) id (Digest img) (Annotations img)
      @ entry_metrics metricLabel (allowed (LabelAllowlist X)) id (Digest img) (Labels img))"

fun fresh :: "string set \<Rightarrow> visit list \<Rightarrow> CachedContainerImage list" where
  "fresh seen [] = []"
| "fresh seen (v # vs) =
     (case snd (snd v) of
        None \<Rightarrow> fresh seen vs
      | Some ci \<Rightarrow> if Digest (cached_img ci) \<in> seen then fresh seen vs
                   else ci # fresh (insert (Digest (cached_img ci)) seen) vs)"

fun body :: "collect_env \<Rightarrow> Exporter \<Rightarrow> string set \<Rightarrow> visit list \<Rightarrow> metric list" where
  "body E X seen [] = []"
| "body E X seen (v # vs) =
     info_metric E v #
     (case snd (snd v) of
        None \<Rightarrow> body E X seen vs
      | Some ci \<Rightarrow> if Digest (cached_img ci) \<in> seen then body E X seen vs
                   else digest_metrics X ci @ body E X (insert (Digest (cached_img ci)) seen) vs)"

definition older :: "time \<Rightarrow> CachedContainerImage \<Rightarrow> time" where
  "older t ci = (if IsZero t \<or> Before (CachedTime ci) t then CachedTime ci else t)"

text \<open>Every string a visit puts into a label is valid UTF-8.\<close>

definition utf8_entries :: "(string \<times> string) list \<Rightarrow> bool" where
  "utf8_entries kvs \<longleftrightarrow> list_all (\<lambda>(k, v). valid_utf8 k \<and> valid_utf8 v) kvs"

definition utf8_visit :: "collect_env \<Rightarrow> visit \<Rightarrow> bool" where
  "utf8_visit E v \<longleftrightarrow>
     list_all valid_utf8 (container_labels E (fst (fst v)) (snd (fst v)) (visit_digest v))
   \<and> (case snd (snd v) of None \<Rightarrow> True
      | Some ci \<Rightarrow> utf8_entries (Annotations (cached_img ci)) \<and> utf8_entries (Labels (cached_img ci)))"

subsection \<open>The loops are the visits\<close>

fun collect_sites :: "collect_env \<Rightarrow> 'c cache_ops \<Rightarrow> Exporter \<Rightarrow> site list \<Rightarrow> 'c scrape \<Rightarrow> 'c scrape" where
  "collect_sites E ops X [] st = st"
| "collect_sites E ops X ((item, container) # rest) st =
     (let st' = collect_container E ops X item container st
      in if crashed (out st') then st' else collect_sites E ops X rest st')"

lemma collect_sites_append:
  "\<not> crashed (out st) \<Longrightarrow> collect_sites E ops X (ss @ ss') st =
     (let st' = collect_sites E ops X ss st
      in if crashed (out st') then st' else collect_sites E ops X ss' st')"
  by (induction ss arbitrary: st) (auto simp: Let_def)

lemma collect_containers_sites:
  "collect_containers E ops X item cs st = collect_sites E ops X (map (Pair item) cs) st"
  by (induction cs arbitrary: st) (auto simp: Let_def)

lemma collect_items_sites:
  "\<not> crashed (out st) \<Longrightarrow>
     collect_items E ops X r items st = collect_sites E ops X (concat (map (item_sites E r) items)) st"
  by (induction items arbitrary: st)
    (auto simp: collect_sites_append collect_containers_sites item_sites_def Let_def)

lemma collect_all_sites:
  "\<not> crashed (out st) \<Longrightarrow> collect_all E ops X all st = collect_sites E ops X (sites E all) st"
  by (induction all arbitrary: st)
    (auto simp: collect_sites_append collect_items_sites sites_def Let_def)


lemma ops_run_append: "ops_run ops c (es @ fs) = ops_run ops (ops_run ops c es) fs"
  by (simp add: ops_run_def)

lemma emit_digest_open:
  assumes ok: "label_contract (e_label_ok E)" and open_st: "out st = Open ms"
    and utf8: "valid_utf8 (Digest (cached_img ci))"
      "utf8_entries (Annotations (cached_img ci))" "utf8_entries (Labels (cached_img ci))"
  shows "emit_digest E X ci st = st\<lparr> out := Open (ms @ digest_metrics X ci) \<rparr>"
proof -
  have entries: "send_entries (e_label_ok E) desc allow id (Digest (cached_img ci)) kvs (Open ns) =
      Open (ns @ entry_metrics desc allow id (Digest (cached_img ci)) kvs)"
    if "utf8_entries kvs" "desc = metricAnnotation \<or> desc = metricLabel" for desc allow kvs ns
    by (rule send_entries_Open [OF ok _ _ utf8(1)])
      (use that in \<open>auto simp: utf8_entries_def list_all_iff metricAnnotation_def metricLabel_def\<close>)
  have small: "good_labels metricSize [Digest (cached_img ci)]" "good_labels metricCreated [Digest (cached_img ci)]"
    using utf8(1) by (simp_all add: good_labels_def metricSize_def metricCreated_def)
  show ?thesis
    using utf8 small by (simp add: emit_digest_def emit_def open_st send_Open [OF ok] Let_def digest_metrics_def entries)
qed

text \<open>One container: the visit, its metrics and its effect on the variables of the loop.\<close>

definition after_visit :: "collect_env \<Rightarrow> 'c cache_ops \<Rightarrow> Exporter \<Rightarrow> visit \<Rightarrow> metric list \<Rightarrow> 'c scrape \<Rightarrow> 'c scrape" where
  "after_visit E ops X v ms st =
     \<lparr> out = Open (ms @ body E X (digests st) [v]),
       shared = (case fst (snd v) of None \<Rightarrow> shared st
                 | Some _ \<Rightarrow> ops_run ops (shared st) (e_others E (cache_ops_done st))),
       cache_ops_done = cache_ops_done st + length (visit_refs [v]),
       activeRefs = activeRefs st @ visit_refs [v],
       oldestEntry = foldl older (oldestEntry st) (fresh (digests st) [v]),
       digests = digests st \<union> (Digest \<circ> cached_img) ` set (fresh (digests st) [v]) \<rparr>"

lemma visit_refs_simps [simp]:
  "visit_refs [] = []"
  "visit_refs ((s, None, c) # vs) = visit_refs vs"
  "visit_refs ((s, Some r, c) # vs) = r # visit_refs vs"
  by (simp_all add: visit_refs_def List.map_filter_simps)

lemma collect_container_visit:
  assumes ok: "label_contract (e_label_ok E)" and open_st: "out st = Open ms"
    and parse: "e_Parse E (Image container) \<noteq> Panic" and get: "\<And>c r. op_Get ops c r \<noteq> Panic"
    and v: "visits E ops (cache_ops_done st) (shared st) [(item, container)] = [v]"
    and utf8: "utf8_visit E v"
  shows "collect_container E ops X item container st = after_visit E ops X v ms st"
proof (cases "e_Parse E (Image container)")
  case (Err e)
  then have v: "v = ((item, container), None, None)" using v by simp
  with Err utf8 show ?thesis
    by (simp add: collect_container_def lookup_image_def emit_def open_st send_Open [OF ok] good_labels_def
        utf8_visit_def visit_digest_def after_visit_def info_metric_def)
      (simp add: container_labels_def metricContainerInfo_def)
next
  case Panic
  with parse show ?thesis by simp
next
  case (Ok ref)
  let ?c = "ops_run ops (shared st) (e_others E (cache_ops_done st))"
  have info: "length (container_labels E item container d) = length (variableLabels metricContainerInfo)" for d
    by (simp add: container_labels_def metricContainerInfo_def)
  show ?thesis
  proof (cases "op_Get ops ?c ref")
    case (Err e)
    with v Ok have v: "v = ((item, container), Some ref, None)" by (simp add: Let_def)
    with Err Ok utf8 show ?thesis
      by (simp add: collect_container_def lookup_image_def emit_def open_st send_Open [OF ok] good_labels_def
          utf8_visit_def visit_digest_def after_visit_def info_metric_def info Let_def)
  next
    case Panic
    with get show ?thesis by simp
  next
    case ci: (Ok ci)
    with v Ok have v: "v = ((item, container), Some ref, Some ci)" by (simp add: Let_def)
    with utf8 have "valid_utf8 (Digest (cached_img ci))" "utf8_entries (Annotations (cached_img ci))"
      "utf8_entries (Labels (cached_img ci))"
      and good: "list_all valid_utf8 (container_labels E item container (Digest (cached_img ci)))"
      by (simp_all add: utf8_visit_def visit_digest_def container_labels_def)
    note dig = emit_digest_open [OF ok _ this(1-3)]
    show ?thesis
      using ci Ok v good
      by (simp add: collect_container_def lookup_image_def emit_def open_st send_Open [OF ok] good_labels_def
          visit_digest_def after_visit_def info_metric_def info Let_def dig older_def)
  qed
qed

text \<open>The whole loop.\<close>

lemma fresh_Cons: "fresh seen (v # vs) =
    fresh seen [v] @ fresh (seen \<union> (Digest \<circ> cached_img) ` set (fresh seen [v])) vs"
  by (auto split: option.split)

lemma body_Cons: "body E X seen (v # vs) =
    body E X seen [v] @ body E X (seen \<union> (Digest \<circ> cached_img) ` set (fresh seen [v])) vs"
  by (auto split: option.split)

lemma visit_refs_Cons: "visit_refs (v # vs) = visit_refs [v] @ visit_refs vs"
  by (simp add: visit_refs_def List.map_filter_simps split: option.split)

definition others_between :: "collect_env \<Rightarrow> nat \<Rightarrow> nat \<Rightarrow> cache_event list" where
  "others_between E m n = concat (map (e_others E) [m..<n])"

lemma others_between_simps [simp]:
  "others_between E m m = []"
  "m \<le> n \<Longrightarrow> others_between E m (Suc n) = others_between E m n @ e_others E n"
  by (simp_all add: others_between_def)

lemma others_between_Cons: "others_between E m (m + Suc k) = e_others E m @ others_between E (Suc m) (Suc m + k)"
  using upt_rec [of m "m + Suc k"] by (simp add: others_between_def)

lemma collect_sites_visits:
  assumes ok: "label_contract (e_label_ok E)"
    and parse: "\<And>s. e_Parse E s \<noteq> Panic" and get: "\<And>c r. op_Get ops c r \<noteq> Panic"
  shows "out st = Open ms \<Longrightarrow> vs = visits E ops (cache_ops_done st) (shared st) ss \<Longrightarrow>
     list_all (utf8_visit E) vs \<Longrightarrow>
     collect_sites E ops X ss st =
     \<lparr> out = Open (ms @ body E X (digests st) vs),
       shared = ops_run ops (shared st)
         (others_between E (cache_ops_done st) (cache_ops_done st + length (visit_refs vs))),
       cache_ops_done = cache_ops_done st + length (visit_refs vs),
       activeRefs = activeRefs st @ visit_refs vs,
       oldestEntry = foldl older (oldestEntry st) (fresh (digests st) vs),
       digests = digests st \<union> (Digest \<circ> cached_img) ` set (fresh (digests st) vs) \<rparr>"
proof (induction ss arbitrary: st ms vs)
  case Nil
  then show ?case by (cases st) (simp add: ops_run_def)
next
  case (Cons s ss)
  obtain item container where s: "s = (item, container)" by fastforce
  obtain v where v: "visits E ops (cache_ops_done st) (shared st) [s] = [v]"
    by (cases "e_Parse E (Image (snd s))") (auto simp: Let_def)
  let ?st = "after_visit E ops X v ms st"
  define ws where "ws = visits E ops (cache_ops_done ?st) (shared ?st) ss"
  have vs: "vs = v # ws"
    unfolding Cons.prems(2) ws_def using v
    by (cases "e_Parse E (Image (snd s))") (auto simp: Let_def after_visit_def)
  then have utf8: "utf8_visit E v" "list_all (utf8_visit E) ws"
    using Cons.prems(3) by simp_all
  have step: "collect_container E ops X item container st = ?st"
    by (rule collect_container_visit [OF ok Cons.prems(1) parse get v [unfolded s] utf8(1)])
  have refs: "fst (snd v) = None \<and> visit_refs [v] = [] \<or> (\<exists>r. fst (snd v) = Some r \<and> visit_refs [v] = [r])"
    by (cases "fst (snd v)") (simp_all add: visit_refs_def List.map_filter_simps)
  have open_st: "out ?st = Open (ms @ body E X (digests st) [v])" by (simp add: after_visit_def)
  have IH: "collect_sites E ops X ss ?st =
     \<lparr> out = Open ((ms @ body E X (digests st) [v]) @ body E X (digests ?st) ws),
       shared = ops_run ops (shared ?st)
         (others_between E (cache_ops_done ?st) (cache_ops_done ?st + length (visit_refs ws))),
       cache_ops_done = cache_ops_done ?st + length (visit_refs ws),
       activeRefs = activeRefs ?st @ visit_refs ws,
       oldestEntry = foldl older (oldestEntry ?st) (fresh (digests ?st) ws),
       digests = digests ?st \<union> (Digest \<circ> cached_img) ` set (fresh (digests ?st) ws) \<rparr>"
    by (rule Cons.IH [OF open_st ws_def utf8(2)])
  have run: "ops_run ops (shared ?st)
         (others_between E (cache_ops_done ?st) (cache_ops_done ?st + length (visit_refs ws))) =
      ops_run ops (shared st)
         (others_between E (cache_ops_done st) (cache_ops_done st + length (visit_refs vs)))"
    using refs unfolding vs visit_refs_Cons [of v ws]
    by (elim disjE exE conjE)
      (simp_all add: after_visit_def ops_run_append others_between_Cons [simplified])
  show ?case
    unfolding s collect_sites.simps step IH run
    by (simp add: open_st vs fresh_Cons [of _ v ws] body_Cons [of _ _ _ v ws] visit_refs_Cons [of v ws]
        image_Un Un_assoc IH run [unfolded vs visit_refs_Cons [of v ws]] del: fresh.simps body.simps)
      (simp add: after_visit_def image_Un Un_assoc del: fresh.simps body.simps)
qed


subsection \<open>What a scrape sends\<close>

lemma list_resources_Ok_iff:
  "list_resources E n rs = Ok all \<longleftrightarrow>
     map fst all = rs \<and> (\<forall>i < length rs. e_List E (n + i) (groupVersionKind (rs ! i)) = Ok (snd (all ! i)))"
proof (induction rs arbitrary: n all)
  case Nil
  then show ?case by auto
next
  case (Cons r rs)
  have step: "list_resources E n (r # rs) = Ok all \<longleftrightarrow>
      (\<exists>items rest. all = (r, items) # rest \<and> e_List E n (groupVersionKind r) = Ok items
         \<and> list_resources E (Suc n) rs = Ok rest)"
    by (auto split: outcome.splits)
  show ?case
    unfolding step Cons.IH
    by (cases all) (auto simp: All_less_Suc2 simp del: list_resources.simps)
qed

definition duration_metric :: "Exporter \<Rightarrow> metric" where
  "duration_metric X = \<lparr> m_desc = metricCacheDuration, m_value = Seconds (Exp_CacheDuration X), m_labels = [] \<rparr>"

definition oldest_metric :: "time \<Rightarrow> metric" where
  "oldest_metric t = \<lparr> m_desc = metricCacheOldestEntry, m_value = Float (float64_of_int (Unix t)), m_labels = [] \<rparr>"

definition up_metric :: "int \<Rightarrow> metric" where
  "up_metric b = \<lparr> m_desc = metricUp, m_value = Float b, m_labels = [] \<rparr>"

lemma Collect_list_error:
  assumes "label_contract (e_label_ok E)" "list_resources E 0 (Exp_Resources X) = Err e"
  shows "Collect E ops X c = (Open [duration_metric X, up_metric 0], c)"
  using assms by (simp add: Collect_def send_plain metricCacheDuration_def metricUp_def duration_metric_def
      up_metric_def)

lemma Collect_open:
  assumes ok: "label_contract (e_label_ok E)"
    and parse: "\<And>s. e_Parse E s \<noteq> Panic" and get: "\<And>c r. op_Get ops c r \<noteq> Panic"
    and all: "list_resources E 0 (Exp_Resources X) = Ok all"
    and vs: "vs = visits E ops 0 c (sites E all)" and utf8: "list_all (utf8_visit E) vs"
  shows "Collect E ops X c =
     (Open (duration_metric X # body E X {} vs @ [oldest_metric (foldl older zero_time (fresh {} vs)), up_metric 1]),
      snd (op_Evict ops (ops_run ops c (others_between E 0 (Suc (length (visit_refs vs)))))
             (visit_refs vs) (e_epoch E)))"
proof -
  have start: "send (e_label_ok E) metricCacheDuration (Seconds (Exp_CacheDuration X)) [] (Open [])
      = Open [duration_metric X]"
    by (simp add: send_plain [OF ok] metricCacheDuration_def duration_metric_def)
  have loop: "collect_all E ops X all (start_scrape (Open [duration_metric X]) c) =
     \<lparr> out = Open ([duration_metric X] @ body E X {} vs),
       shared = ops_run ops c (others_between E 0 (length (visit_refs vs))),
       cache_ops_done = length (visit_refs vs),
       activeRefs = visit_refs vs,
       oldestEntry = foldl older zero_time (fresh {} vs),
       digests = (Digest \<circ> cached_img) ` set (fresh {} vs) \<rparr>"
    using collect_sites_visits [OF ok parse get, of "start_scrape (Open [duration_metric X]) c" "[duration_metric X]" vs]
    by (simp add: start_scrape_def collect_all_sites vs utf8 [unfolded vs])
  show ?thesis
    unfolding Collect_def Let_def start all outcome.case loop
    by (simp add: send_plain [OF ok] metricCacheOldestEntry_def metricUp_def oldest_metric_def up_metric_def
        ops_run_append)
qed

lemma body_infos: "filter (\<lambda>m. m_desc m = metricContainerInfo) (body E X seen vs) = map (info_metric E) vs"
proof (induction vs arbitrary: seen)
  case Nil
  then show ?case by simp
next
  case (Cons v vs)
  have "filter (\<lambda>m. m_desc m = metricContainerInfo) (digest_metrics X ci) = []" for ci
    by (auto simp: digest_metrics_def entry_metrics_def filter_empty_conv cluster_descs Let_def)
  with Cons show ?case by (auto simp: info_metric_def split: option.split)
qed

lemma body_digests:
  "filter (\<lambda>m. m_desc m \<noteq> metricContainerInfo) (body E X seen vs) = concat (map (digest_metrics X) (fresh seen vs))"
proof (induction vs arbitrary: seen)
  case Nil
  then show ?case by simp
next
  case (Cons v vs)
  have "filter (\<lambda>m. m_desc m \<noteq> metricContainerInfo) (digest_metrics X ci) = digest_metrics X ci" for ci
    by (auto simp: digest_metrics_def entry_metrics_def filter_id_conv cluster_descs Let_def)
  with Cons show ?case by (auto simp: info_metric_def split: option.split)
qed

lemma fresh_digests:
  "Digest ` cached_img ` set (fresh seen vs) =
     {d. \<exists>v \<in> set vs. \<exists>ci. snd (snd v) = Some ci \<and> d = Digest (cached_img ci)} - seen"
  by (induction vs arbitrary: seen) (auto split: option.split if_splits)

lemma fresh_cached: "set (fresh seen vs) \<subseteq> {ci. \<exists>v \<in> set vs. snd (snd v) = Some ci}"
proof (induction vs arbitrary: seen)
  case Nil
  then show ?case by simp
next
  case (Cons v vs)
  have "set (fresh seen (v # vs)) \<subseteq> {ci. snd (snd v) = Some ci} \<union> {ci. \<exists>v \<in> set vs. snd (snd v) = Some ci}"
    using Cons.IH by (cases "snd (snd v)") (auto simp: subset_iff)
  then show ?case by auto
qed

lemma distinct_fresh: "distinct (map (Digest \<circ> cached_img) (fresh seen vs))"
proof (induction vs arbitrary: seen)
  case Nil
  then show ?case by simp
next
  case (Cons v vs)
  show ?case
  proof (cases "snd (snd v)")
    case None
    with Cons show ?thesis by simp
  next
    case (Some ci)
    have "Digest (cached_img ci) \<notin> (Digest \<circ> cached_img) ` set (fresh (insert (Digest (cached_img ci)) seen) vs)"
      using fresh_digests [of "insert (Digest (cached_img ci)) seen" vs] by (auto simp: image_image)
    with Cons Some show ?thesis by simp
  qed
qed

lemma foldl_older:
  assumes "\<forall>ci \<in> set cis. zero_time < CachedTime ci"
  shows "foldl older zero_time cis = (if cis = [] then zero_time else Min (CachedTime ` set cis))"
  using assms
proof (induction cis rule: rev_induct)
  case Nil
  then show ?case by simp
next
  case (snoc ci cis)
  show ?case
  proof (cases "cis = []")
    case True
    then show ?thesis by (simp add: older_def IsZero_def)
  next
    case False
    with snoc have IH: "foldl older zero_time cis = Min (CachedTime ` set cis)" by simp
    have "Min (CachedTime ` set cis) \<in> CachedTime ` set cis" using False by (intro Min_in) auto
    with snoc.prems have "Min (CachedTime ` set cis) \<noteq> zero_time" by auto
    then have "foldl older zero_time (cis @ [ci]) = min (CachedTime ci) (Min (CachedTime ` set cis))"
      by (simp add: IH) (auto simp: older_def IsZero_def Before_def min_def not_less)
    with False show ?thesis by simp
  qed
qed


subsection \<open>No series twice\<close>

text \<open>What Kubernetes guarantees: two objects differ in kind, namespace or name.\<close>

definition identity :: "collect_env \<Rightarrow> json_obj \<Rightarrow> GVK \<times> string \<times> string" where
  "identity E item = (e_GVK E item, e_Namespace E item, e_Name E item)"

definition site_key :: "collect_env \<Rightarrow> site \<Rightarrow> (GVK \<times> string \<times> string) \<times> string" where
  "site_key E s = (identity E (fst s), JSONPath (snd s))"

definition clean_resource :: "watchedResource \<Rightarrow> bool" where
  "clean_resource r \<longleftrightarrow> list_all clean_path (containerPaths r) \<and> distinct (containerPaths r)"

lemma distinct_filter_split:
  "distinct (filter P xs) \<Longrightarrow> distinct (filter (\<lambda>x. \<not> P x) xs) \<Longrightarrow> distinct xs"
  by (induction xs) (auto split: if_splits)

lemma distinct_map_finer:
  assumes "distinct (map g xs)" "\<And>x y. f x = f y \<Longrightarrow> g x = g y"
  shows "distinct (map f xs)"
proof -
  have "inj_on f (set xs)"
    using assms unfolding distinct_map inj_on_def by blast
  with assms(1) show ?thesis by (simp add: distinct_map)
qed

lemma distinct_item_sites: "clean_resource r \<Longrightarrow> distinct (map (site_key E) (item_sites E r item))"
  using distinct_containerSpecs [of "containerPaths r" "e_lib E" item]
  by (auto simp: clean_resource_def item_sites_def site_key_def distinct_map inj_on_def)

lemma distinct_items:
  "clean_resource r \<Longrightarrow> distinct (map (identity E) items) \<Longrightarrow>
     distinct (map (site_key E) (concat (map (item_sites E r) items)))"
proof (induction items)
  case Nil
  then show ?case by simp
next
  case (Cons item items)
  have "site_key E s \<noteq> site_key E t"
    if "s \<in> set (item_sites E r item)" "t \<in> set (concat (map (item_sites E r) items))" for s t
    using that Cons.prems(2) by (auto simp: item_sites_def site_key_def)
  moreover have "distinct (map (site_key E) (concat (map (item_sites E r) items)))"
    using Cons by simp
  ultimately show ?case
    using distinct_map_append [OF distinct_item_sites [OF Cons.prems(1), of E item]]
    by (simp del: map_concat set_concat)
qed

lemma sites_items: "s \<in> set (sites E all) \<Longrightarrow> fst s \<in> set (concat (map snd all))"
  by (force simp: sites_def item_sites_def)

lemma distinct_sites:
  "list_all (clean_resource \<circ> fst) all \<Longrightarrow> distinct (map (identity E) (concat (map snd all))) \<Longrightarrow>
     distinct (map (site_key E) (sites E all))"
proof (induction all)
  case Nil
  then show ?case by (simp add: sites_def)
next
  case (Cons a all)
  obtain r items where a: "a = (r, items)" by fastforce
  have "site_key E s \<noteq> site_key E t"
    if s: "s \<in> set (concat (map (item_sites E r) items))" and t: "t \<in> set (sites E all)" for s t
  proof -
    have "fst s \<in> set items" using s by (auto simp: item_sites_def)
    with sites_items [OF t] Cons.prems(2) show ?thesis by (auto simp: a site_key_def)
  qed
  moreover have "distinct (map (site_key E) (concat (map (item_sites E r) items)))"
    using distinct_items Cons.prems by (simp add: a)
  moreover have "sites E (a # all) = concat (map (item_sites E r) items) @ sites E all"
    by (simp add: sites_def a)
  moreover have "distinct (map (site_key E) (sites E all))" using Cons by simp
  ultimately show ?case using distinct_map_append [of "site_key E"] by (simp only:) blast
qed

lemma map_fst_visits [simp]: "map fst (visits E ops n c ss) = ss"
  by (induction ss arbitrary: n c) (auto simp: Let_def split: outcome.split)

lemma distinct_infos:
  assumes "distinct (map (site_key E \<circ> fst) vs)"
  shows "distinct (map series (map (info_metric E) vs))"
proof -
  have inj: "site_key E (fst v) = site_key E (fst w)"
    if "series (info_metric E v) = series (info_metric E w)" for v w
    using that by (simp add: series_def info_metric_def container_labels_def site_key_def identity_def)
  have "distinct (map (\<lambda>v. series (info_metric E v)) vs)"
    by (rule distinct_map_finer [OF assms]) (unfold comp_apply, rule inj)
  then show ?thesis by (simp add: comp_def)
qed

text \<open>The keys of a Go map are distinct.\<close>

definition go_map :: "(string \<times> string) list \<Rightarrow> bool" where
  "go_map kvs \<longleftrightarrow> distinct (map fst kvs)"

definition go_maps :: "CachedContainerImage \<Rightarrow> bool" where
  "go_maps ci \<longleftrightarrow> go_map (Annotations (cached_img ci)) \<and> go_map (Labels (cached_img ci))"

lemma distinct_digest_metrics:
  assumes "go_maps ci"
  shows "distinct (map series (digest_metrics X ci))"
proof -
  let ?a = "entry_metrics metricAnnotation (allowed (AnnotationAllowlist X)) id (Digest (cached_img ci))
      (Annotations (cached_img ci))"
  let ?l = "entry_metrics metricLabel (allowed (LabelAllowlist X)) id (Digest (cached_img ci)) (Labels (cached_img ci))"
  let ?s = "\<lparr> m_desc = metricSize, m_value = Float (float64_of_int (Size (cached_img ci))), m_labels = [Digest (cached_img ci)] \<rparr>"
  let ?c = "\<lparr> m_desc = metricCreated, m_value = Float (float64_of_int (Unix (Created (cached_img ci)))), m_labels = [Digest (cached_img ci)] \<rparr>"
  have descs: "m_desc m = metricAnnotation" if "m \<in> set ?a" for m
    using that by (auto simp: entry_metrics_def)
  have descs': "m_desc m = metricLabel" if "m \<in> set ?l" for m
    using that by (auto simp: entry_metrics_def)
  have "distinct (map series ?a)" "distinct (map series ?l)"
    using assms by (simp_all add: go_maps_def go_map_def distinct_entry_metrics)
  moreover have "distinct (map series [?s, ?c])"
    by (simp add: series_def metricSize_def metricCreated_def)
  moreover have "series m \<noteq> series m'" if "m \<in> set ?a" "m' \<in> set ?l" for m m'
    using descs [OF that(1)] descs' [OF that(2)] by (simp add: series_def cluster_descs)
  moreover have "series m \<noteq> series m'" if "m \<in> set [?s, ?c]" "m' \<in> set (?a @ ?l)" for m m'
    using that descs [of m'] descs' [of m'] by (auto simp: series_def cluster_descs)
  ultimately have "distinct (map series ([?s, ?c] @ ?a @ ?l))"
    by (intro distinct_map_append)
  then show ?thesis by (simp add: digest_metrics_def Let_def)
qed

lemma digest_metrics_owner: "m \<in> set (digest_metrics X ci) \<Longrightarrow> hd (m_labels m) = Digest (cached_img ci)"
  by (auto simp: digest_metrics_def Let_def entry_metrics_def)

lemma distinct_digests:
  "distinct (map (Digest \<circ> cached_img) cis) \<Longrightarrow> list_all go_maps cis \<Longrightarrow>
     distinct (map series (concat (map (digest_metrics X) cis)))"
proof (induction cis)
  case Nil
  then show ?case by simp
next
  case (Cons ci cis)
  have "series m \<noteq> series m'"
    if m: "m \<in> set (digest_metrics X ci)" and m': "m' \<in> set (concat (map (digest_metrics X) cis))" for m m'
  proof -
    obtain ci' where "ci' \<in> set cis" "m' \<in> set (digest_metrics X ci')" using m' by auto
    then have "Digest (cached_img ci') \<noteq> Digest (cached_img ci)" "hd (m_labels m') = Digest (cached_img ci')"
      using digest_metrics_owner [of m' X ci'] Cons.prems(1) by (auto simp: image_iff)
    with digest_metrics_owner [OF m] show ?thesis
      by (auto simp: series_def)
  qed
  moreover have "distinct (map series (digest_metrics X ci))"
    "distinct (map series (concat (map (digest_metrics X) cis)))"
    using Cons by (simp_all add: distinct_digest_metrics)
  ultimately show ?case
    unfolding list.map concat.simps by (intro distinct_map_append)
qed

lemma distinct_body:
  assumes "distinct (map (site_key E \<circ> fst) vs)"
    and "\<And>v ci. v \<in> set vs \<Longrightarrow> snd (snd v) = Some ci \<Longrightarrow> go_maps ci"
  shows "distinct (map series (body E X {} vs))"
proof (rule distinct_filter_split [where P = "\<lambda>s. fst s = metricContainerInfo"])
  show "distinct (filter (\<lambda>s. fst s = metricContainerInfo) (map series (body E X {} vs)))"
    using distinct_infos [OF assms(1)] by (simp add: filter_map comp_def series_def body_infos)
  have "list_all go_maps (fresh {} vs)"
    using fresh_cached [of "{}" vs] assms(2) by (auto simp: list_all_iff)
  then show "distinct (filter (\<lambda>s. fst s \<noteq> metricContainerInfo) (map series (body E X {} vs)))"
    using distinct_digests [OF distinct_fresh] by (simp add: filter_map comp_def series_def body_digests)
qed

lemma body_descs:
  "m \<in> set (body E X seen vs) \<Longrightarrow>
     m_desc m \<in> {metricContainerInfo, metricSize, metricCreated, metricAnnotation, metricLabel}"
  by (induction vs arbitrary: seen)
    (auto simp: info_metric_def digest_metrics_def Let_def entry_metrics_def split: option.splits if_splits)


subsection \<open>What a scrape does to the cache\<close>

lemma emit_digest_shared [simp]: "shared (emit_digest E X ci st) = shared st"
  by (simp add: emit_digest_def emit_def Let_def)

lemma collect_container_shared: "\<exists>evs. shared (collect_container E ops X item container st) = ops_run ops (shared st) evs"
proof -
  have "\<exists>evs. shared (snd (lookup_image E ops container st)) = ops_run ops (shared st) evs"
    by (auto simp: lookup_image_def Let_def ops_run_def intro: exI [of _ "[]"] split: outcome.split)
  moreover have "shared (collect_container E ops X item container st) = shared (snd (lookup_image E ops container st))"
    by (simp add: collect_container_def Let_def emit_def split: prod.split option.split)
  ultimately show ?thesis by simp
qed

lemma ops_run_Nil [simp]: "ops_run ops c [] = c"
  by (simp add: ops_run_def)

text \<open>Each loop runs operations of the others; \<open>runs\<close> composes.\<close>

definition runs :: "'c cache_ops \<Rightarrow> 'c \<Rightarrow> 'c \<Rightarrow> bool" where
  "runs ops c c' \<longleftrightarrow> (\<exists>evs. c' = ops_run ops c evs)"

lemma runs_refl [simp, intro]: "runs ops c c"
  unfolding runs_def by (rule exI [of _ "[]"]) simp

lemma runs_trans [trans]: "runs ops c d \<Longrightarrow> runs ops d e \<Longrightarrow> runs ops c e"
  by (auto simp: runs_def simp flip: ops_run_append)

lemma runs_ops_run [intro]: "runs ops c d \<Longrightarrow> runs ops c (ops_run ops d evs)"
  by (auto simp: runs_def simp flip: ops_run_append)

lemma runs_Evict [intro]: "runs ops c d \<Longrightarrow> runs ops c (snd (op_Evict ops d refs t))"
  using runs_ops_run [of ops c d "[EvEvict refs t]"] by (simp add: ops_run_def)

lemma containers_runs: "runs ops (shared st) (shared (collect_containers E ops X item cs st))"
proof (induction cs arbitrary: st)
  case (Cons container cs)
  have "runs ops (shared st) (shared (collect_container E ops X item container st))"
    using collect_container_shared [of E ops X item container st] by (simp add: runs_def)
  with Cons show ?case by (auto simp: Let_def intro: runs_trans)
qed simp

lemma items_runs: "runs ops (shared st) (shared (collect_items E ops X r items st))"
proof (induction items arbitrary: st)
  case (Cons item items)
  with containers_runs [of ops st E X item] show ?case by (auto simp: Let_def intro: runs_trans)
qed simp

lemma all_runs: "runs ops (shared st) (shared (collect_all E ops X all st))"
proof (induction all arbitrary: st)
  case (Cons a all)
  with items_runs [of ops st E X] show ?case by (cases a) (auto simp: Let_def intro: runs_trans)
qed simp

lemma Collect_runs: "runs ops c (snd (Collect E ops X c))"
proof -
  have "runs ops c (shared (collect_all E ops X all (start_scrape ch c)))" for all ch
    using all_runs [of ops "start_scrape ch c" E X all] by (simp add: start_scrape_def)
  then show ?thesis by (auto simp: Collect_def Let_def split: outcome.split)
qed

text \<open>With nobody else at the cache, every visit sees the same cache.\<close>

definition quiet :: "collect_env \<Rightarrow> bool" where
  "quiet E \<longleftrightarrow> (\<forall>n. e_others E n = [])"

definition visit_of :: "collect_env \<Rightarrow> 'c cache_ops \<Rightarrow> 'c \<Rightarrow> site \<Rightarrow> visit" where
  "visit_of E ops c s =
     (case e_Parse E (Image (snd s)) of
        Ok ref \<Rightarrow> (s, Some ref, case op_Get ops c ref of Ok ci \<Rightarrow> Some ci | _ \<Rightarrow> None)
      | _ \<Rightarrow> (s, None, None))"

lemma visits_quiet: "quiet E \<Longrightarrow> visits E ops n c ss = map (visit_of E ops c) ss"
  by (induction ss arbitrary: n) (auto simp: quiet_def visit_of_def split: outcome.split)

lemma visit_refs_iff:
  "ref \<in> set (visit_refs (map (visit_of E ops c) ss)) \<longleftrightarrow> (\<exists>s \<in> set ss. e_Parse E (Image (snd s)) = Ok ref)"
proof (induction ss)
  case (Cons s ss)
  then show ?case by (cases "e_Parse E (Image (snd s))") (auto simp: visit_of_def)
qed simp

lemma others_quiet [simp]: "quiet E \<Longrightarrow> others_between E m n = []"
  by (simp add: quiet_def others_between_def concat_eq_Nil_conv)

context image_cache
begin

lemma ops_run_inv: "inv c \<Longrightarrow> inv (ops_run ops c evs)"
proof (induction evs arbitrary: c)
  case (Cons e evs)
  then have "inv (ops_step ops c e)" by (cases e) (simp_all add: put_inv evict_inv)
  with Cons.IH show ?case by (simp add: ops_run_def)
qed simp

lemma Collect_inv: "inv c \<Longrightarrow> inv (snd (Collect E ops X c))"
  using Collect_runs [of ops c E X] by (auto simp: runs_def ops_run_inv)

lemma get_no_panic: "op_Get ops c r \<noteq> Panic"
  using get_total [of c r] by auto

lemma visit_after_evict:
  assumes inv: "inv c" and owned: "\<And>ref. ref \<in> set refs \<Longrightarrow> owns c ref"
    and s: "\<And>ref. e_Parse E (Image (snd s)) = Ok ref \<Longrightarrow> ref \<in> set refs"
  shows "visit_of E ops (snd (op_Evict ops c refs t)) s = visit_of E ops c s"
proof (cases "e_Parse E (Image (snd s))")
  case (Ok ref)
  have "op_Get ops (snd (op_Evict ops c refs t)) ref = op_Get ops c ref"
  proof (cases "op_Get ops c ref")
    case ci: (Ok ci)
    then show ?thesis using get_evict_keep [OF inv ci owned] s [OF Ok] by simp
  next
    case (Err e)
    then show ?thesis
      using get_evict_only [OF inv, of refs t ref] get_total [of c ref]
        get_total [of "snd (op_Evict ops c refs t)" ref] by force
  qed (simp add: get_no_panic)
  with Ok show ?thesis by (simp add: visit_of_def)
qed (simp_all add: visit_of_def)

text \<open>A second scrape of the same objects sends the same metrics: eviction takes nothing a scrape
  has just shown.\<close>

lemma Collect_twice:
  assumes ok: "label_contract (e_label_ok E)" and parse: "\<And>s. e_Parse E s \<noteq> Panic" and "quiet E" "inv c"
    and all: "list_resources E 0 (Exp_Resources X) = Ok all"
    and utf8: "list_all (utf8_visit E \<circ> visit_of E ops c) (sites E all)"
    and owned: "\<And>s ref. s \<in> set (sites E all) \<Longrightarrow> e_Parse E (Image (snd s)) = Ok ref \<Longrightarrow> owns c ref"
  shows "fst (Collect E ops X (snd (Collect E ops X c))) = fst (Collect E ops X c)"
proof -
  let ?vs = "map (visit_of E ops c) (sites E all)"
  let ?c = "snd (op_Evict ops c (visit_refs ?vs) (e_epoch E))"
  have refs: "ref \<in> set (visit_refs ?vs) \<longleftrightarrow> (\<exists>s \<in> set (sites E all). e_Parse E (Image (snd s)) = Ok ref)" for ref
    by (rule visit_refs_iff)
  have same: "visit_of E ops ?c s = visit_of E ops c s" if "s \<in> set (sites E all)" for s
    by (rule visit_after_evict [OF assms(4)]) (use that owned refs in blast)+
  then have vs: "map (visit_of E ops ?c) (sites E all) = ?vs" by simp
  have utf8': "list_all (utf8_visit E) ?vs" using utf8 by (simp add: list_all_iff)
  note collect = Collect_open [OF ok parse get_no_panic all refl]
  have "Collect E ops X c = (Open (duration_metric X # body E X {} ?vs
      @ [oldest_metric (foldl older zero_time (fresh {} ?vs)), up_metric 1]), ?c)"
    using collect [of c] utf8' assms(3) by (simp add: visits_quiet)
  moreover have "fst (Collect E ops X ?c) = Open (duration_metric X # body E X {} ?vs
      @ [oldest_metric (foldl older zero_time (fresh {} ?vs)), up_metric 1])"
    using collect [of ?c] utf8' assms(3) by (simp add: visits_quiet vs)
  ultimately show ?thesis by simp
qed

end


subsection \<open>Only what is described\<close>

abbreviation "described_by ch \<equiv> m_desc ` set (sent ch) \<subseteq> set Describe"

lemma lookup_image_descs [simp]: "sent (out (snd (lookup_image E ops container st))) = sent (out st)"
  by (simp add: lookup_image_def Let_def split: outcome.split)

lemma emit_digest_out:
  "out (emit_digest E X ci st) =
     send_entries (e_label_ok E) metricLabel (allowed (LabelAllowlist X)) id (Digest (cached_img ci)) (Labels (cached_img ci))
      (send_entries (e_label_ok E) metricAnnotation (allowed (AnnotationAllowlist X)) id (Digest (cached_img ci)) (Annotations (cached_img ci))
       (send (e_label_ok E) metricCreated (Float (float64_of_int (Unix (Created (cached_img ci))))) [Digest (cached_img ci)]
        (send (e_label_ok E) metricSize (Float (float64_of_int (Size (cached_img ci)))) [Digest (cached_img ci)] (out st))))"
  by (simp add: emit_digest_def emit_def Let_def)

lemma emit_digest_descs: "described_by (out st) \<Longrightarrow> described_by (out (emit_digest E X ci st))"
  unfolding emit_digest_out by (intro descs_step) (simp_all add: Describe_def)

lemma collect_container_descs:
  assumes "described_by (out st)"
  shows "described_by (out (collect_container E ops X item container st))"
proof -
  obtain cached st1 where l: "lookup_image E ops container st = (cached, st1)" by fastforce
  with lookup_image_descs [of E ops container st] assms have "described_by (out st1)" by simp
  then have st2: "described_by (out (emit E metricContainerInfo v labels st1))" for v labels
    by (simp add: emit_def) (intro descs_step, simp_all add: Describe_def)
  show ?thesis
  proof (cases cached)
    case None
    with st2 show ?thesis by (simp add: collect_container_def l)
  next
    case (Some ci)
    with st2 show ?thesis by (simp add: collect_container_def l Let_def emit_digest_descs)
  qed
qed

lemma Collect_descs: "m \<in> set (sent (fst (Collect E ops X c))) \<Longrightarrow> m_desc m \<in> set Describe"
proof -
  have containers: "described_by (out st) \<Longrightarrow> described_by (out (collect_containers E ops X item cs st))" for item cs st
  proof (induction cs arbitrary: st)
    case (Cons container cs)
    with collect_container_descs [OF Cons.prems, of E ops X item container] show ?case by (simp add: Let_def)
  qed simp
  have items: "described_by (out st) \<Longrightarrow> described_by (out (collect_items E ops X r items st))" for r items st
  proof (induction items arbitrary: st)
    case (Cons item items)
    with containers [OF Cons.prems, of item "containerSpecs (e_lib E) item (containerPaths r)"]
    show ?case by (simp add: Let_def)
  qed simp
  have all: "described_by (out st) \<Longrightarrow> described_by (out (collect_all E ops X all st))" for all st
  proof (induction all arbitrary: st)
    case (Cons a all)
    obtain r items where "a = (r, items)" by fastforce
    with Cons items [OF Cons.prems, of r items] show ?case by (simp add: Let_def)
  qed simp
  have start: "described_by (send (e_label_ok E) metricCacheDuration v [] (Open []))" for v
    by (intro descs_step) (simp_all add: Describe_def)
  then have loop: "described_by (out (collect_all E ops X rs
      (start_scrape (send (e_label_ok E) metricCacheDuration v [] (Open [])) c)))" for rs v
    by (intro all) (simp add: start_scrape_def)
  have "described_by (fst (Collect E ops X c))"
  proof -
    have mem: "metricUp \<in> set Describe" "metricCacheOldestEntry \<in> set Describe"
      by (simp_all add: Describe_def)
    show ?thesis
      by (cases "list_resources E 0 (Exp_Resources X)")
        (simp_all add: Collect_def Let_def start loop descs_step mem del: sent_crash crash.simps, simp add: start)
  qed
  then show "m \<in> set (sent (fst (Collect E ops X c))) \<Longrightarrow> m_desc m \<in> set Describe" by blast
qed

interpretation cluster_collector: collector Describe "\<lambda>(E, X, c). fst (Collect E cacheImpl_ops X c)"
proof
  show "m_desc m \<in> set Describe" if "m \<in> set (sent (case i of (E, X, c) \<Rightarrow> fst (Collect E cacheImpl_ops X c)))" for m i
    using that Collect_descs by (cases i) auto
  show "distinct (map fqName Describe)" by (simp add: Describe_def cluster_descs)
qed


subsection \<open>Properties\<close>

text \<open>A concrete cluster for the witnesses: one pod with one container, whose image is cached.\<close>

definition example_collect_env :: collect_env where
  "example_collect_env =
     \<lparr> e_epoch = At 50, e_List = (\<lambda>_ gvk. if Kind gvk = ''Pod'' then Ok [example_obj] else Err (External ''forbidden'')),
       e_GVK = (\<lambda>_. \<lparr> Group = '''', Version = ''v1'', Kind = ''Pod'' \<rparr>), e_Namespace = (\<lambda>_. ''ns''), e_Name = (\<lambda>_. ''pod''),
       e_Parse = (\<lambda>s. Ok (TagRef s)), e_label_ok = example_labels, e_others = (\<lambda>_. []), e_lib = example_lib \<rparr>"

definition pod_resource :: watchedResource where
  "pod_resource = hd builtinResources"

definition example_exporter :: Exporter where
  "example_exporter =
     \<lparr> Exp_Resources = [pod_resource], Exp_CacheDuration = 60, AnnotationAllowlist = [], LabelAllowlist = [''keep''] \<rparr>"

definition filled_cache :: cacheImpl where
  "filled_cache =
     \<lparr> digestMap = [(''i'', ''d'')],
       imageMap = [(''d'', \<lparr> cached_img = \<lparr> Digest = ''d'', Annotations = [(''k'', ''v'')],
                                            Labels = [(''keep'', ''1''), (''drop'', ''2'')], Size = 7, Created = At 0 \<rparr>,
                            CachedTime = At 5 \<rparr>)] \<rparr>"

lemma filled_cache_inv: "cache_inv filled_cache"
  by (simp add: cache_inv_def filled_cache_def)

lemma pod_resource_simps [simp]:
  "containerPaths pod_resource = podContainerPaths" "Kind (groupVersionKind pod_resource) = ''Pod''"
  "clean_resource pod_resource"
  using builtin_paths_clean [of pod_resource]
  by (simp_all add: pod_resource_def builtinResources_def clean_resource_def)

lemma example_list: "list_resources example_collect_env 0 (Exp_Resources example_exporter) = Ok [(pod_resource, [example_obj])]"
  by (simp add: example_exporter_def) (simp add: example_collect_env_def)

lemma example_env_simps:
  "label_contract (e_label_ok example_collect_env)" "e_Parse example_collect_env s \<noteq> Panic" "quiet example_collect_env"
  by (simp_all add: example_collect_env_def example_labels_contract quiet_def)

definition example_site :: site where
  "example_site = (example_obj, \<lparr> JSONPath = slice_path [''spec'', ''containers''] 0, Name = ''a'', Image = ''i'' \<rparr>)"

lemma example_sites: "sites example_collect_env [(pod_resource, [example_obj])] = [example_site]"
proof -
  have "specsForPath example_lib example_obj [''spec'', p] = []" if "p = ''initContainers'' \<or> p = ''ephemeralContainers''" for p
    using that by (auto simp: example_obj_def example_lib_def specsForPath_def)
  then show ?thesis
    by (simp add: sites_def item_sites_def podContainerPaths_def example_site_def example_collect_env_def example_specs)
qed

lemma example_visits:
  "visits example_collect_env cacheImpl_ops n filled_cache [example_site] =
     [(example_site, Some (TagRef ''i''), Some (snd (hd (imageMap filled_cache))))]"
  by (simp add: example_site_def example_collect_env_def cacheImpl_ops_def Get_def digest_for_def filled_cache_def Let_def)

lemma example_utf8:
  "list_all (utf8_visit example_collect_env)
     (visits example_collect_env cacheImpl_ops 0 filled_cache (sites example_collect_env [(pod_resource, [example_obj])]))"
proof -
  have "list_all valid_utf8 [slice_path [''spec'', ''containers''] 0, ''v1'', ''Pod'', ''ns'', ''pod'', ''i'', ''d'',
      ''k'', ''v'', ''keep'', ''1'', ''drop'', ''2'']" by code_simp
  then show ?thesis
    unfolding example_sites example_visits
    by (simp add: utf8_visit_def container_labels_def visit_digest_def filled_cache_def utf8_entries_def
        example_collect_env_def example_site_def valid_utf8_ascii)
qed

text \<open>C15. When one resource type cannot be listed, the scrape sends the cache duration and \<open>up\<close> = 0,
  nothing else, and leaves the cache alone: an incomplete list never evicts an image.\<close>

theorem collect_list_failure:
  assumes "label_contract (e_label_ok E)" "list_resources E 0 (Exp_Resources X) = Err e"
  shows "Collect E ops X c = (Open [duration_metric X, up_metric 0], c)"
  by (rule Collect_list_error [OF assms])

theorem collect_list_failure_witness:
  "Collect example_collect_env cacheImpl_ops (example_exporter\<lparr> Exp_Resources := builtinResources \<rparr>) filled_cache =
     (Open [duration_metric example_exporter, up_metric 0], filled_cache)"
proof -
  have "list_resources example_collect_env 0 builtinResources = Err (External ''forbidden'')"
    by (simp add: example_collect_env_def builtinResources_def pod_template_resource_def)
  then have "list_resources example_collect_env 0 (Exp_Resources (example_exporter\<lparr> Exp_Resources := builtinResources \<rparr>))
      = Err (External ''forbidden'')" by simp
  from collect_list_failure [OF example_env_simps(1) this, of cacheImpl_ops filled_cache]
  show ?thesis by (simp add: duration_metric_def)
qed


lemma list_resources_ok:
  "is_Ok (list_resources E n rs) \<longleftrightarrow> (\<forall>i < length rs. is_Ok (e_List E (n + i) (groupVersionKind (rs ! i))))"
proof (induction rs arbitrary: n)
  case Nil
  then show ?case by simp
next
  case (Cons r rs)
  have "is_Ok (list_resources E n (r # rs)) \<longleftrightarrow>
      is_Ok (e_List E n (groupVersionKind r)) \<and> is_Ok (list_resources E (Suc n) rs)"
    by (simp split: outcome.split)
  then show ?case unfolding Cons.IH by (simp add: All_less_Suc2)
qed

lemma list_resources_no_panic: "(\<And>n gvk. e_List E n gvk \<noteq> Panic) \<Longrightarrow> list_resources E m rs \<noteq> Panic"
  by (induction rs arbitrary: m) (auto split: outcome.split)

lemma body_no_up: "filter (\<lambda>m. m_desc m = metricUp) (body E X seen vs) = []"
  using body_descs [of _ E X seen vs] by (force simp: filter_empty_conv cluster_descs)

text \<open>C16. A scrape always ends with exactly one \<open>up\<close> metric, and it is 1 iff every watched resource type
  could be listed: an image that is not in the cache, or a reference that does not parse, does not
  bring it down.\<close>

theorem collect_up_iff_listed:
  assumes "label_contract (e_label_ok E)" "\<And>s. e_Parse E s \<noteq> Panic" "\<And>n gvk. e_List E n gvk \<noteq> Panic"
    and "\<And>all. list_resources E 0 (Exp_Resources X) = Ok all \<Longrightarrow>
      list_all (utf8_visit E) (visits E cacheImpl_ops 0 c (sites E all))"
  shows "\<exists>ms. fst (Collect E cacheImpl_ops X c) = Open ms
     \<and> filter (\<lambda>m. m_desc m = metricUp) ms =
         [up_metric (if \<forall>i < length (Exp_Resources X). is_Ok (e_List E i (groupVersionKind (Exp_Resources X ! i)))
                     then 1 else 0)]"
proof (cases "list_resources E 0 (Exp_Resources X)")
  case (Ok all)
  have plain: "m_desc (duration_metric X) \<noteq> metricUp" "m_desc (oldest_metric t) \<noteq> metricUp" for t
    by (simp_all add: duration_metric_def oldest_metric_def cluster_descs)
  have listed: "\<forall>i < length (Exp_Resources X). is_Ok (e_List E i (groupVersionKind (Exp_Resources X ! i)))"
    using list_resources_ok [of E 0 "Exp_Resources X"] Ok by simp
  note collect = Collect_open [OF assms(1,2) cache_impl.get_no_panic Ok refl assms(4) [OF Ok]]
  show ?thesis
    unfolding collect if_P [OF listed] by (simp add: body_no_up plain) (simp add: up_metric_def)
next
  case (Err e)
  then have "\<not> (\<forall>i < length (Exp_Resources X). is_Ok (e_List E i (groupVersionKind (Exp_Resources X ! i))))"
    using list_resources_ok [of E 0 "Exp_Resources X"] by simp
  moreover have "m_desc (duration_metric X) \<noteq> metricUp" by (simp add: duration_metric_def cluster_descs)
  ultimately show ?thesis
    by (simp add: Collect_list_error [OF assms(1) Err]) (simp add: up_metric_def)
next
  case Panic
  with list_resources_no_panic [OF assms(3)] show ?thesis by blast
qed

theorem collect_up_iff_listed_witness:
  "\<exists>ms. fst (Collect example_collect_env cacheImpl_ops example_exporter filled_cache) = Open ms
     \<and> filter (\<lambda>m. m_desc m = metricUp) ms = [up_metric 1]"
proof -
  have "e_List example_collect_env n gvk \<noteq> Panic" for n gvk
    by (simp add: example_collect_env_def)
  from collect_up_iff_listed [OF example_env_simps(1,2) this, of example_exporter filled_cache]
  show ?thesis using example_list example_utf8 by (simp add: example_exporter_def) (simp add: example_collect_env_def)
qed

text \<open>C3. A scrape sends exactly one \<open>container_info\<close> for every container of every listed object, in order,
  with the digest the cache had for its image at that moment (empty when it had none).\<close>

theorem collect_container_infos:
  assumes "label_contract (e_label_ok E)" "\<And>s. e_Parse E s \<noteq> Panic"
    and "list_resources E 0 (Exp_Resources X) = Ok all"
    and "vs = visits E cacheImpl_ops 0 c (sites E all)" "list_all (utf8_visit E) vs"
  shows "filter (\<lambda>m. m_desc m = metricContainerInfo) (sent (fst (Collect E cacheImpl_ops X c))) = map (info_metric E) vs
     \<and> map fst vs = sites E all"
proof -
  have "m_desc (duration_metric X) \<noteq> metricContainerInfo" "m_desc (oldest_metric t) \<noteq> metricContainerInfo"
    "m_desc (up_metric 1) \<noteq> metricContainerInfo" for t
    by (simp_all add: duration_metric_def oldest_metric_def up_metric_def cluster_descs)
  then show ?thesis
    unfolding Collect_open [OF assms(1,2) cache_impl.get_no_panic assms(3-5)]
    by (simp add: body_infos assms(4))
qed

theorem collect_container_infos_witness:
  "map m_labels (filter (\<lambda>m. m_desc m = metricContainerInfo)
     (sent (fst (Collect example_collect_env cacheImpl_ops example_exporter filled_cache)))) =
   [['''', ''v1'', ''Pod'', ''ns'', ''pod'', slice_path [''spec'', ''containers''] 0, ''i'', ''d'']]"
  using collect_container_infos [OF example_env_simps(1,2) example_list refl example_utf8]
  unfolding example_sites example_visits
  by (simp add: info_metric_def container_labels_def visit_digest_def)
    (simp add: filled_cache_def example_collect_env_def example_site_def)

definition digest_descs :: "Desc set" where
  "digest_descs = {metricSize, metricCreated, metricAnnotation, metricLabel}"

lemma not_digest_descs:
  "metricContainerInfo \<notin> digest_descs" "metricUp \<notin> digest_descs"
  "metricCacheDuration \<notin> digest_descs" "metricCacheOldestEntry \<notin> digest_descs"
  by (simp_all add: digest_descs_def cluster_descs)

lemma body_digest_filter:
  "filter (\<lambda>m. m_desc m \<in> digest_descs) (body E X seen vs) = concat (map (digest_metrics X) (fresh seen vs))"
proof -
  have "m_desc m \<in> digest_descs \<longleftrightarrow> m_desc m \<noteq> metricContainerInfo" if "m \<in> set (body E X seen vs)" for m
    using body_descs [OF that] not_digest_descs(1) by (auto simp: digest_descs_def)
  then have "filter (\<lambda>m. m_desc m \<in> digest_descs) (body E X seen vs) =
      filter (\<lambda>m. m_desc m \<noteq> metricContainerInfo) (body E X seen vs)"
    by (rule filter_cong [OF refl])
  then show ?thesis by (simp only: body_digests)
qed



definition filled_entry :: CachedContainerImage where
  "filled_entry = snd (hd (imageMap filled_cache))"

lemma example_visit_list:
  "visits example_collect_env cacheImpl_ops 0 filled_cache (sites example_collect_env [(pod_resource, [example_obj])]) =
     [(example_site, Some (TagRef ''i''), Some filled_entry)]"
  unfolding example_sites example_visits filled_entry_def ..


text \<open>C17. A scrape never sends the same series twice, so Prometheus cannot reject it: given that the
  API server's objects differ in kind, namespace or name, and that the keys of an image's annotations
  and labels are distinct (they are Go maps).\<close>

theorem collect_no_duplicate_series:
  assumes "label_contract (e_label_ok E)" "\<And>s. e_Parse E s \<noteq> Panic"
    and "list_resources E 0 (Exp_Resources X) = Ok all"
    and vs: "vs = visits E cacheImpl_ops 0 c (sites E all)" and "list_all (utf8_visit E) vs"
    and "list_all clean_resource (Exp_Resources X)" "distinct (map (identity E) (concat (map snd all)))"
    and "\<And>v ci. v \<in> set vs \<Longrightarrow> snd (snd v) = Some ci \<Longrightarrow> go_maps ci"
  shows "distinct (map series (sent (fst (Collect E cacheImpl_ops X c))))"
proof -
  have "map fst all = Exp_Resources X"
    using assms(3) by (simp add: list_resources_Ok_iff)
  then have "list_all (clean_resource \<circ> fst) all"
    using assms(6) by (metis list.pred_map)
  then have "distinct (map (site_key E \<circ> fst) vs)"
    using distinct_sites [OF _ assms(7)] by (simp add: vs flip: map_map)
  then have body: "distinct (map series (body E X {} vs))"
    by (rule distinct_body) (rule assms(8))
  have other: "series m \<noteq> series m'"
    if "m \<in> set (body E X {} vs)" "m_desc m' \<in> {metricCacheDuration, metricCacheOldestEntry, metricUp}" for m m'
    using body_descs [OF that(1)] that(2) by (auto simp: series_def cluster_descs)
  have ends: "m_desc (duration_metric X) = metricCacheDuration" "m_desc (oldest_metric t) = metricCacheOldestEntry"
    "m_desc (up_metric b) = metricUp" for t b
    by (simp_all add: duration_metric_def oldest_metric_def up_metric_def)
  have tail: "distinct (map series [oldest_metric t, up_metric 1])" for t
    by (simp add: series_def ends) (simp add: cluster_descs)
  have "distinct (map series (body E X {} vs @ [oldest_metric t, up_metric 1]))" for t
    by (rule distinct_map_append [OF body tail], rule other) (auto simp: ends)
  then have "distinct (map series ([duration_metric X] @ body E X {} vs @ [oldest_metric t, up_metric 1]))" for t
    by (rule distinct_map_append [rotated])
      (auto simp: ends dest!: other [where m' = "duration_metric X"] simp del: map_append,
       simp_all add: series_def ends cluster_descs)
  then show ?thesis
    unfolding Collect_open [OF assms(1,2) cache_impl.get_no_panic assms(3-5)] by simp
qed


lemma example_ok: "list_all clean_resource (Exp_Resources example_exporter)"
  by (simp add: example_exporter_def)

lemmas example_vs = example_visit_list [symmetric] example_utf8 [unfolded example_visit_list]

theorem collect_no_duplicate_series_witness:
  "distinct (map series (sent (fst (Collect example_collect_env cacheImpl_ops example_exporter filled_cache))))"
  by (rule collect_no_duplicate_series [OF example_env_simps(1,2) example_list example_vs example_ok])
    (auto simp: filled_entry_def filled_cache_def go_maps_def go_map_def)

text \<open>The oldest-entry metric is the oldest of the cache times of the digests sent, and Go's zero time
  when no image was found; entries are dated by the clock, so none has the zero time itself.\<close>

theorem collect_oldest_entry:
  assumes "label_contract (e_label_ok E)" "\<And>s. e_Parse E s \<noteq> Panic"
    and "list_resources E 0 (Exp_Resources X) = Ok all"
    and vs: "vs = visits E cacheImpl_ops 0 c (sites E all)" and "list_all (utf8_visit E) vs"
    and "\<And>v ci. v \<in> set vs \<Longrightarrow> snd (snd v) = Some ci \<Longrightarrow> zero_time < CachedTime ci"
  shows "\<exists>cis. filter (\<lambda>m. m_desc m = metricCacheOldestEntry) (sent (fst (Collect E cacheImpl_ops X c))) =
       [oldest_metric (if cis = {} then zero_time else Min (CachedTime ` cis))]
     \<and> cis \<subseteq> {ci. \<exists>v \<in> set vs. snd (snd v) = Some ci}
     \<and> (Digest \<circ> cached_img) ` cis = {d. \<exists>v \<in> set vs. \<exists>ci. snd (snd v) = Some ci \<and> d = Digest (cached_img ci)}"
proof (intro exI conjI)
  have "filter (\<lambda>m. m_desc m = metricCacheOldestEntry) (body E X {} vs) = []"
    using body_descs by (force simp: filter_empty_conv cluster_descs)
  moreover have "m_desc (duration_metric X) \<noteq> metricCacheOldestEntry" "m_desc (up_metric 1) \<noteq> metricCacheOldestEntry"
    "m_desc (oldest_metric t) = metricCacheOldestEntry" for t
    by (simp_all add: duration_metric_def oldest_metric_def up_metric_def cluster_descs)
  moreover have "foldl older zero_time (fresh {} vs) =
      (if set (fresh {} vs) = {} then zero_time else Min (CachedTime ` set (fresh {} vs)))"
  proof -
    have "\<forall>ci \<in> set (fresh {} vs). zero_time < CachedTime ci"
    proof
      fix ci assume "ci \<in> set (fresh {} vs)"
      then obtain v where "v \<in> set vs" "snd (snd v) = Some ci"
        using fresh_cached [of "{}" vs] by blast
      then show "zero_time < CachedTime ci" by (rule assms(6))
    qed
    then show ?thesis by (simp add: foldl_older)
  qed
  ultimately show "filter (\<lambda>m. m_desc m = metricCacheOldestEntry) (sent (fst (Collect E cacheImpl_ops X c))) =
       [oldest_metric (if set (fresh {} vs) = {} then zero_time else Min (CachedTime ` set (fresh {} vs)))]"
    unfolding Collect_open [OF assms(1,2) cache_impl.get_no_panic assms(3-5)] by simp
  show "set (fresh {} vs) \<subseteq> {ci. \<exists>v \<in> set vs. snd (snd v) = Some ci}" by (rule fresh_cached)
  show "(Digest \<circ> cached_img) ` set (fresh {} vs) =
      {d. \<exists>v \<in> set vs. \<exists>ci. snd (snd v) = Some ci \<and> d = Digest (cached_img ci)}"
    using fresh_digests [of "{}" vs] by (simp add: image_comp)
qed

theorem collect_oldest_entry_witness:
  "filter (\<lambda>m. m_desc m = metricCacheOldestEntry)
     (sent (fst (Collect example_collect_env cacheImpl_ops example_exporter filled_cache))) = [oldest_metric (At 5)]"
proof -
  have new: "zero_time < CachedTime filled_entry"
    by (simp add: filled_entry_def filled_cache_def zero_time_def less_time_def)
  obtain cis where "filter (\<lambda>m. m_desc m = metricCacheOldestEntry)
      (sent (fst (Collect example_collect_env cacheImpl_ops example_exporter filled_cache))) =
       [oldest_metric (if cis = {} then zero_time else Min (CachedTime ` cis))]"
    and cis: "cis \<subseteq> {filled_entry}" "(Digest \<circ> cached_img) ` cis = {Digest (cached_img filled_entry)}"
    using collect_oldest_entry [OF example_env_simps(1,2) example_list example_vs] new by auto
  moreover have "cis = {filled_entry}" using cis by auto
  ultimately show ?thesis by (simp add: filled_entry_def filled_cache_def)
qed




text \<open>A scrape does not disturb the next one: when nobody else touches the cache, and the references
  of the listed containers were cached under their own name (always so for tags), a second scrape of the
  same objects sends exactly the same metrics.\<close>

theorem collect_twice:
  assumes "label_contract (e_label_ok E)" "\<And>s. e_Parse E s \<noteq> Panic" "quiet E" "cache_inv c"
    and "list_resources E 0 (Exp_Resources X) = Ok all"
    and "list_all (utf8_visit E) (visits E cacheImpl_ops 0 c (sites E all))"
    and "\<And>s ref. s \<in> set (sites E all) \<Longrightarrow> e_Parse E (Image (snd s)) = Ok ref \<Longrightarrow> owned_by c ref"
  shows "fst (Collect E cacheImpl_ops X (snd (Collect E cacheImpl_ops X c))) = fst (Collect E cacheImpl_ops X c)"
proof -
  have "list_all (utf8_visit E \<circ> visit_of E cacheImpl_ops c) (sites E all)"
    using assms(6) by (simp add: visits_quiet [OF assms(3)] list.pred_map)
  from cache_impl.Collect_twice [OF assms(1-5) this assms(7)] show ?thesis .
qed

theorem collect_twice_witness:
  "fst (Collect example_collect_env cacheImpl_ops example_exporter
      (snd (Collect example_collect_env cacheImpl_ops example_exporter filled_cache))) =
   fst (Collect example_collect_env cacheImpl_ops example_exporter filled_cache)"
  by (rule collect_twice [OF example_env_simps(1-3) filled_cache_inv example_list example_utf8])
    (unfold example_sites, auto simp: example_site_def example_collect_env_def owned_by_def filled_cache_def digest_for_def)

text \<open>The exporter only sends metrics it has described, on every path, panics included, and so all its
  samples of one metric name have the same label names.\<close>

theorem collect_described:
  "m_desc ` set (sent (fst (Collect E cacheImpl_ops X c))) \<subseteq> set Describe
   \<and> (\<forall>m \<in> set (sent (fst (Collect E cacheImpl_ops X c))). \<forall>m' \<in> set (sent (fst (Collect E' cacheImpl_ops X' c'))).
        fqName (m_desc m) = fqName (m_desc m') \<longrightarrow> variableLabels (m_desc m) = variableLabels (m_desc m'))"
proof (intro conjI ballI impI)
  show "m_desc ` set (sent (fst (Collect E cacheImpl_ops X c))) \<subseteq> set Describe"
    using cluster_collector.described [of _ "(E, X, c)"] by auto
  show "variableLabels (m_desc m) = variableLabels (m_desc m')"
    if "m \<in> set (sent (fst (Collect E cacheImpl_ops X c)))" "m' \<in> set (sent (fst (Collect E' cacheImpl_ops X' c')))"
      "fqName (m_desc m) = fqName (m_desc m')" for m m'
    using cluster_collector.same_name_same_desc [of m "(E, X, c)" m' "(E', X', c')"] that by simp
qed

theorem collect_described_witness:
  "duration_metric example_exporter \<in> set (sent (fst (Collect example_collect_env cacheImpl_ops example_exporter filled_cache)))
   \<and> metricCacheDuration \<in> set Describe"
proof
  show m: "duration_metric example_exporter \<in> set (sent (fst (Collect example_collect_env cacheImpl_ops example_exporter filled_cache)))"
    by (simp add: Collect_open [OF example_env_simps(1,2) cache_impl.get_no_panic example_list example_vs])
  show "metricCacheDuration \<in> set Describe"
    using collect_described [of example_collect_env example_exporter filled_cache] m
    by (force simp: duration_metric_def)
qed

end
