(* ===== verification/Registry_Transport.thy ===== *)
theory Registry_Transport
  imports Prometheus
begin

section \<open>The transport to the registries (\<^verbatim>\<open>internal/clusterexporter/transport.go\<close>)\<close>

text \<open>
  \<open>newRegistryTransport\<close> stacks up to three layers on a base transport: a rate limit, a bound on the
  requests in flight (both per host) and request metrics. All reconcilers share one transport, so its
  requests are threads: \<open>advance\<close> is one atomic step of one request, \<open>sys_step\<close> lets any request
  start or step. A layer's table maps hosts to the addresses of its limiters or semaphores, which live
  in the heaps \<open>lim_heap\<close> and \<open>sem_heap\<close>, so that sharing them is explicit. The objects themselves
  (\<open>x/time/rate\<close>, \<open>x/sync/semaphore\<close>), the base transport, the clock and the metric registry are the
  parameter \<open>net_ops\<close>; a natural number tells the moments of two calls apart.
\<close>

subsection \<open>Requests\<close>

record http_Request =
  URL_Host :: string
  Method :: string

text \<open>\<open>URL.Hostname\<close>: the host without a port and without the brackets of an IPv6 address.\<close>

fun last_colon :: "string \<Rightarrow> (string \<times> string) option" where
  "last_colon [] = None"
| "last_colon (c # cs) =
     (case last_colon cs of
        Some (before, port) \<Rightarrow> Some (c # before, port)
      | None \<Rightarrow> if c = CHR '':'' then Some ([], cs) else None)"

definition strip_port :: "string \<Rightarrow> string" where
  "strip_port hostport =
     (case last_colon hostport of
        Some (host, port) \<Rightarrow>
          if list_all (\<lambda>c. 48 \<le> (of_char c :: nat) \<and> (of_char c :: nat) \<le> 57) port then host else hostport
      | None \<Rightarrow> hostport)"

definition Hostname :: "http_Request \<Rightarrow> string" where
  "Hostname req =
     (let host = strip_port (URL_Host req)
      in if host \<noteq> [] \<and> hd host = CHR ''['' \<and> last host = CHR '']''
         then butlast (tl host) else host)"

text \<open>What \<open>RoundTrip\<close> gives back: the status code of the response, if there is one, and the error, if
  any; or it panics.\<close>

datatype http_result = Returned "int option" "error option" | Panicked

subsection \<open>What the layers call\<close>

datatype float64 = Finite int int | PosInf | NegInf | NaN

text \<open>\<open>Finite m e\<close> is \<open>m * 2 ^ e\<close>.\<close>

fun float_positive :: "float64 \<Rightarrow> bool" where
  "float_positive (Finite m e) = (0 < m)"
| "float_positive PosInf = True"
| "float_positive NegInf = False"
| "float_positive NaN = False"

text \<open>A call that may block: it goes on, gives up with an error, or cannot return at that moment.\<close>

datatype 'a blocking = Proceed 'a | GiveUp 'a error | Blocked

record ('l, 's) net_ops =
  NewLimiter :: "float64 \<Rightarrow> int \<Rightarrow> 'l"
  Wait :: "nat \<Rightarrow> 'l \<Rightarrow> 'l blocking"
  NewWeighted :: "int \<Rightarrow> 's"
  Acquire :: "nat \<Rightarrow> 's \<Rightarrow> 's blocking"
  Release :: "'s \<Rightarrow> 's option"
  base_RoundTrip :: "nat \<Rightarrow> nat \<Rightarrow> http_Request \<Rightarrow> http_result"
  now :: "nat \<Rightarrow> time"
  values_ok :: label_check

text \<open>\<open>Release\<close> is \<open>None\<close> where it panics, \<open>values_ok\<close> the test of \<open>WithLabelValues\<close>.\<close>

subsection \<open>The layers\<close>

record rateLimitTransport =
  rps :: float64
  burst :: int
  limiters :: "string \<rightharpoonup> nat"

record concurrencyTransport =
  max_in_flight :: int
  sems :: "string \<rightharpoonup> nat"

record metricsTransport =
  req_total :: "string list \<Rightarrow> nat"
  req_duration :: "string list \<Rightarrow> duration list"

datatype layer =
    RateLimit rateLimitTransport
  | Concurrency concurrencyTransport
  | Metrics metricsTransport

text \<open>The stack, outermost layer first, and the heaps its tables point into.\<close>

record ('l, 's) transport =
  tr_base :: nat
  layers :: "layer list"
  lim_heap :: "'l list"
  sem_heap :: "'s list"

definition newRateLimitTransport :: "float64 \<Rightarrow> int \<Rightarrow> ('l, 's) transport \<Rightarrow> ('l, 's) transport" where
  "newRateLimitTransport r b T =
     T\<lparr> layers := RateLimit \<lparr> rps = r, burst = b, limiters = Map.empty \<rparr> # layers T \<rparr>"

definition newConcurrencyTransport :: "int \<Rightarrow> ('l, 's) transport \<Rightarrow> ('l, 's) transport" where
  "newConcurrencyTransport m T =
     T\<lparr> layers := Concurrency \<lparr> max_in_flight = m, sems = Map.empty \<rparr> # layers T \<rparr>"

text \<open>\<open>MustRegister\<close> panics when the registry refuses; \<open>reg\<close> is the registry's answer and next state.\<close>

definition metric_names :: "string list" where
  "metric_names =
     [''container_image_cluster_exporter_registry_requests_total'',
      ''container_image_cluster_exporter_registry_request_duration_seconds'']"

definition newMetricsTransport ::
  "(string list \<Rightarrow> 'r \<Rightarrow> 'r option) \<Rightarrow> 'r \<Rightarrow> ('l, 's) transport \<Rightarrow> (('l, 's) transport \<times> 'r) outcome" where
  "newMetricsTransport register reg T =
     (case register metric_names reg of
        None \<Rightarrow> Panic
      | Some reg' \<Rightarrow>
          Ok (T\<lparr> layers := Metrics \<lparr> req_total = (\<lambda>_. 0), req_duration = (\<lambda>_. []) \<rparr> # layers T \<rparr>, reg'))"

definition newRegistryTransport ::
  "(string list \<Rightarrow> 'r \<Rightarrow> 'r option) \<Rightarrow> nat \<Rightarrow> nat option \<Rightarrow> int \<Rightarrow> float64 \<Rightarrow> 'r option
     \<Rightarrow> (('l, 's) transport \<times> 'r option) outcome" where
  "newRegistryTransport register DefaultTransport base concurrency r reg =
     (let t = \<lparr> tr_base = (case base of None \<Rightarrow> DefaultTransport | Some b \<Rightarrow> b),
                layers = [], lim_heap = [], sem_heap = [] \<rparr>
      in case (case reg of
                 None \<Rightarrow> Ok (t, None)
               | Some g \<Rightarrow> (case newMetricsTransport register g t of
                              Ok (t1, g') \<Rightarrow> Ok (t1, Some g') | Err e \<Rightarrow> Err e | Panic \<Rightarrow> Panic)) of
           Err e \<Rightarrow> Err e | Panic \<Rightarrow> Panic
         | Ok (t1, reg1) \<Rightarrow>
             (let t2 = (if concurrency > 0 then newConcurrencyTransport concurrency t1 else t1);
                  t3 = (if float_positive r
                        then newRateLimitTransport r (if concurrency < 1 then 1 else concurrency) t2 else t2)
              in Ok (t3, reg1)))"

text \<open>The two tables: under the mutex, find the host's object or create it.\<close>

definition limiterFor ::
  "('l, 's) net_ops \<Rightarrow> string \<Rightarrow> rateLimitTransport \<Rightarrow> 'l list \<Rightarrow> nat \<times> rateLimitTransport \<times> 'l list" where
  "limiterFor N host t heap =
     (let (t', heap') =
        (if limiters t host = None
         then (t\<lparr> limiters := (limiters t)(host \<mapsto> length heap) \<rparr>, heap @ [NewLimiter N (rps t) (burst t)])
         else (t, heap))
      in (the (limiters t' host), t', heap'))"

definition semFor ::
  "('l, 's) net_ops \<Rightarrow> string \<Rightarrow> concurrencyTransport \<Rightarrow> 's list \<Rightarrow> nat \<times> concurrencyTransport \<times> 's list" where
  "semFor N host t heap =
     (let (t', heap') =
        (if sems t host = None
         then (t\<lparr> sems := (sems t)(host \<mapsto> length heap) \<rparr>, heap @ [NewWeighted N (max_in_flight t)])
         else (t, heap))
      in (the (sems t' host), t', heap'))"

text \<open>\<open>Inc\<close> and \<open>Observe\<close> of the metrics layer, with the labels host, method and code.\<close>

definition code_label :: "int option \<Rightarrow> string" where
  "code_label resp = (case resp of None \<Rightarrow> ''0'' | Some code \<Rightarrow> Itoa code)"

definition record_request ::
  "http_Request \<Rightarrow> int option \<Rightarrow> duration \<Rightarrow> metricsTransport \<Rightarrow> metricsTransport" where
  "record_request req resp elapsed t =
     (let ls = [Hostname req, Method req, code_label resp]
      in t\<lparr> req_total := (req_total t)(ls := Suc (req_total t ls)),
            req_duration := (req_duration t)(ls := req_duration t ls @ [elapsed]) \<rparr>)"


subsection \<open>Round trips as threads\<close>

text \<open>
  \<open>Enter d\<close>: about to call \<open>RoundTrip\<close> of layer \<open>d\<close>, and of the base when no layer is left;
  \<open>AwaitLimiter d a\<close>, \<open>AwaitSem d a\<close>: in layer \<open>d\<close>, waiting at the object with address \<open>a\<close>;
  \<open>Return r\<close>: a callee has given \<open>r\<close>, and the frames say what its callers still do: the deferred
  release of a semaphore, or the metrics of layer \<open>d\<close> for a call begun at some time. A panic runs
  the deferred calls only. A thread is finished when it returns and no frame is left.
\<close>

datatype pc = Enter nat | AwaitLimiter nat nat | AwaitSem nat nat | Return http_result

datatype frame = ReleaseFrame nat | ObserveFrame nat time

record thread =
  th_req :: http_Request
  th_pc :: pc
  th_frames :: "frame list"
  th_base :: "http_result option"

text \<open>\<open>th_base\<close> keeps what the base transport answered, for the statements only.\<close>

definition new_thread :: "http_Request \<Rightarrow> thread" where
  "new_thread req = \<lparr> th_req = req, th_pc = Enter 0, th_frames = [], th_base = None \<rparr>"

definition finished :: "thread \<Rightarrow> bool" where
  "finished th \<longleftrightarrow> (case th_pc th of Return _ \<Rightarrow> th_frames th = [] | _ \<Rightarrow> False)"

lemma finished_frames: "finished th \<Longrightarrow> th_frames th = []"
  by (simp add: finished_def split: pc.splits)

text \<open>Layer \<open>d\<close> is called: it finds its host's object and waits there, or notes the time.\<close>

fun enter_rate_limit ::
  "('l, 's) net_ops \<Rightarrow> nat \<Rightarrow> rateLimitTransport \<Rightarrow> thread \<Rightarrow> ('l, 's) transport \<Rightarrow> thread \<times> ('l, 's) transport" where
  "enter_rate_limit N d t th T =
     (case limiterFor N (Hostname (th_req th)) t (lim_heap T) of
        (a, t', h) \<Rightarrow> (th\<lparr> th_pc := AwaitLimiter d a \<rparr>,
                       T\<lparr> layers := (layers T)[d := RateLimit t'], lim_heap := h \<rparr>))"

fun enter_concurrency ::
  "('l, 's) net_ops \<Rightarrow> nat \<Rightarrow> concurrencyTransport \<Rightarrow> thread \<Rightarrow> ('l, 's) transport \<Rightarrow> thread \<times> ('l, 's) transport" where
  "enter_concurrency N d t th T =
     (case semFor N (Hostname (th_req th)) t (sem_heap T) of
        (a, t', h) \<Rightarrow> (th\<lparr> th_pc := AwaitSem d a \<rparr>,
                       T\<lparr> layers := (layers T)[d := Concurrency t'], sem_heap := h \<rparr>))"

fun enter_metrics :: "('l, 's) net_ops \<Rightarrow> nat \<Rightarrow> nat \<Rightarrow> thread \<Rightarrow> ('l, 's) transport \<Rightarrow> thread \<times> ('l, 's) transport" where
  "enter_metrics N n d th T =
     (th\<lparr> th_pc := Enter (Suc d), th_frames := ObserveFrame d (now N n) # th_frames th \<rparr>, T)"

definition enter_layer ::
  "('l, 's) net_ops \<Rightarrow> nat \<Rightarrow> nat \<Rightarrow> layer \<Rightarrow> thread \<Rightarrow> ('l, 's) transport \<Rightarrow> thread \<times> ('l, 's) transport" where
  "enter_layer N n d ly th T =
     (case ly of
        RateLimit t \<Rightarrow> enter_rate_limit N d t th T
      | Concurrency t \<Rightarrow> enter_concurrency N d t th T
      | Metrics t \<Rightarrow> enter_metrics N n d th T)"

text \<open>The wait ends: with the error of the wait, or by calling the next layer; a granted semaphore is
  released when that call has come back.\<close>

fun after_wait ::
  "('l, 's) net_ops \<Rightarrow> nat \<Rightarrow> nat \<Rightarrow> nat \<Rightarrow> thread \<Rightarrow> ('l, 's) transport \<Rightarrow> (thread \<times> ('l, 's) transport) option" where
  "after_wait N n d a th T =
     (case Wait N n (lim_heap T ! a) of
        Blocked \<Rightarrow> None
      | Proceed l \<Rightarrow> Some (th\<lparr> th_pc := Enter (Suc d) \<rparr>, T\<lparr> lim_heap := (lim_heap T)[a := l] \<rparr>)
      | GiveUp l e \<Rightarrow> Some (th\<lparr> th_pc := Return (Returned None (Some e)) \<rparr>,
                           T\<lparr> lim_heap := (lim_heap T)[a := l] \<rparr>))"

fun after_acquire ::
  "('l, 's) net_ops \<Rightarrow> nat \<Rightarrow> nat \<Rightarrow> nat \<Rightarrow> thread \<Rightarrow> ('l, 's) transport \<Rightarrow> (thread \<times> ('l, 's) transport) option" where
  "after_acquire N n d a th T =
     (case Acquire N n (sem_heap T ! a) of
        Blocked \<Rightarrow> None
      | Proceed s \<Rightarrow> Some (th\<lparr> th_pc := Enter (Suc d), th_frames := ReleaseFrame a # th_frames th \<rparr>,
                          T\<lparr> sem_heap := (sem_heap T)[a := s] \<rparr>)
      | GiveUp s e \<Rightarrow> Some (th\<lparr> th_pc := Return (Returned None (Some e)) \<rparr>,
                           T\<lparr> sem_heap := (sem_heap T)[a := s] \<rparr>))"

text \<open>A caller resumes with the result of the layer below.\<close>

definition observe ::
  "('l, 's) net_ops \<Rightarrow> nat \<Rightarrow> nat \<Rightarrow> time \<Rightarrow> http_result \<Rightarrow> http_Request \<Rightarrow> ('l, 's) transport
     \<Rightarrow> http_result \<times> ('l, 's) transport" where
  "observe N n d start r req T =
     (case r of
        Panicked \<Rightarrow> (Panicked, T)
      | Returned resp err \<Rightarrow>
          (case layers T ! d of
             Metrics t \<Rightarrow>
               if \<not> values_ok N 3 [Hostname req, Method req, code_label resp] then (Panicked, T)
               else (r, T\<lparr> layers := (layers T)[d := Metrics
                             (record_request req resp (nanos (now N n) - nanos start) t)] \<rparr>)
           | _ \<Rightarrow> (r, T)))"

definition resume ::
  "('l, 's) net_ops \<Rightarrow> nat \<Rightarrow> http_result \<Rightarrow> frame \<Rightarrow> http_Request \<Rightarrow> ('l, 's) transport
     \<Rightarrow> http_result \<times> ('l, 's) transport" where
  "resume N n r fr req T =
     (case fr of
        ReleaseFrame a \<Rightarrow>
          (case Release N (sem_heap T ! a) of
             None \<Rightarrow> (Panicked, T)
           | Some s \<Rightarrow> (r, T\<lparr> sem_heap := (sem_heap T)[a := s] \<rparr>))
      | ObserveFrame d start \<Rightarrow> observe N n d start r req T)"

fun advance ::
  "('l, 's) net_ops \<Rightarrow> nat \<Rightarrow> thread \<Rightarrow> ('l, 's) transport \<Rightarrow> (thread \<times> ('l, 's) transport) option" where
  "advance N n th T =
     (case th_pc th of
        Enter d \<Rightarrow>
          if d < length (layers T) then Some (enter_layer N n d (layers T ! d) th T)
          else (let r = base_RoundTrip N n (tr_base T) (th_req th)
                in Some (th\<lparr> th_pc := Return r, th_base := Some r \<rparr>, T))
      | AwaitLimiter d a \<Rightarrow> after_wait N n d a th T
      | AwaitSem d a \<Rightarrow> after_acquire N n d a th T
      | Return r \<Rightarrow>
          (case th_frames th of
             [] \<Rightarrow> None
           | fr # frs \<Rightarrow>
               (case resume N n r fr (th_req th) T of
                  (r', T') \<Rightarrow> Some (th\<lparr> th_pc := Return r', th_frames := frs \<rparr>, T'))))"

text \<open>The system: the transport and every request made so far.\<close>

record ('l, 's) sys =
  tr :: "('l, 's) transport"
  threads :: "thread list"

datatype action = Call http_Request | Move nat nat

fun perform :: "('l, 's) net_ops \<Rightarrow> action \<Rightarrow> ('l, 's) sys \<Rightarrow> ('l, 's) sys option" where
  "perform N (Call req) S = Some (S\<lparr> threads := threads S @ [new_thread req] \<rparr>)"
| "perform N (Move n i) S =
     (if i < length (threads S) then
        (case advance N n (threads S ! i) (tr S) of
           None \<Rightarrow> None
         | Some (th, T) \<Rightarrow> Some (S\<lparr> tr := T, threads := (threads S)[i := th] \<rparr>))
      else None)"

inductive reachable :: "('l, 's) net_ops \<Rightarrow> ('l, 's) transport \<Rightarrow> ('l, 's) sys \<Rightarrow> bool" for N T0 where
  start: "reachable N T0 \<lparr> tr = T0, threads = [] \<rparr>"
| step: "reachable N T0 S \<Longrightarrow> perform N act S = Some S' \<Longrightarrow> reachable N T0 S'"

fun perform_all :: "('l, 's) net_ops \<Rightarrow> action list \<Rightarrow> ('l, 's) sys \<Rightarrow> ('l, 's) sys option" where
  "perform_all N [] S = Some S"
| "perform_all N (act # acts) S =
     (case perform N act S of None \<Rightarrow> None | Some S' \<Rightarrow> perform_all N acts S')"

lemma perform_all_reachable:
  "reachable N T0 S \<Longrightarrow> perform_all N acts S = Some S' \<Longrightarrow> reachable N T0 S'"
  by (induction acts arbitrary: S) (auto split: option.splits intro: reachable.step)


subsection \<open>Finding or creating the object of a host\<close>

text \<open>
  \<open>limiterFor\<close> and \<open>semFor\<close> keep the same contract: they give the host's object, create it exactly
  once, and touch no other entry. A table is well formed when its addresses are in the heap and no
  two hosts share one; both facts are proved once, for either table.
\<close>

definition wf_table :: "(string \<rightharpoonup> nat) \<Rightarrow> nat \<Rightarrow> bool" where
  "wf_table tab n \<longleftrightarrow> (\<forall>h a. tab h = Some a \<longrightarrow> a < n) \<and> inj_on tab (dom tab)"

lemma wf_table_less: "wf_table tab n \<Longrightarrow> tab h = Some a \<Longrightarrow> a < n"
  by (auto simp: wf_table_def)

lemma wf_table_inj: "wf_table tab n \<Longrightarrow> tab h = Some a \<Longrightarrow> tab h' = Some a \<Longrightarrow> h = h'"
  unfolding wf_table_def inj_on_def by (metis domI)

lemma wf_table_new: "wf_table tab n \<Longrightarrow> tab h = None \<Longrightarrow> wf_table (tab(h \<mapsto> n)) (Suc n)"
  by (fastforce simp: wf_table_def inj_on_def less_Suc_eq dom_def)

locale host_table =
  fixes for_host :: "string \<Rightarrow> 't \<Rightarrow> 'a list \<Rightarrow> nat \<times> 't \<times> 'a list"
    and table_of :: "'t \<Rightarrow> string \<rightharpoonup> nat"
    and fresh_object :: "'t \<Rightarrow> 'a"
  assumes found: "table_of t h = Some a \<Longrightarrow> for_host h t heap = (a, t, heap)"
    and created: "table_of t h = None \<Longrightarrow> \<exists>t'. for_host h t heap = (length heap, t', heap @ [fresh_object t])
      \<and> table_of t' = (table_of t)(h \<mapsto> length heap) \<and> fresh_object t' = fresh_object t"
begin

lemma for_host_cases:
  assumes "for_host h t heap = (a, t', heap')"
  obtains (old) "table_of t h = Some a" "t' = t" "heap' = heap"
    | (new) "table_of t h = None" "a = length heap" "heap' = heap @ [fresh_object t]"
        "table_of t' = (table_of t)(h \<mapsto> a)" "fresh_object t' = fresh_object t"
proof (cases "table_of t h")
  case None
  with created [OF None, of heap] assms new show ?thesis by auto
next
  case (Some b)
  with found [OF Some, of heap] assms old show ?thesis by simp
qed

lemma for_host_entry: "for_host h t heap = (a, t', heap') \<Longrightarrow> table_of t' h = Some a"
  by (erule for_host_cases) simp_all

lemma for_host_others:
  "for_host h t heap = (a, t', heap') \<Longrightarrow> table_of t g = Some b \<Longrightarrow> table_of t' g = Some b"
  by (erule for_host_cases) auto

lemma for_host_wf:
  "for_host h t heap = (a, t', heap') \<Longrightarrow> wf_table (table_of t) (length heap) \<Longrightarrow>
     wf_table (table_of t') (length heap') \<and> a < length heap'"
  by (erule for_host_cases) (auto simp: wf_table_new wf_table_less)

lemma for_host_twice:
  assumes "for_host h t heap = (a, t', heap')"
  shows "for_host h t' heap'' = (a, t', heap'')"
  by (rule found [OF for_host_entry [OF assms]])

end

interpretation limiter_table: host_table "limiterFor N" limiters "\<lambda>t. NewLimiter N (rps t) (burst t)" for N
  by unfold_locales (auto simp: limiterFor_def)

interpretation sem_table: host_table "semFor N" sems "\<lambda>t. NewWeighted N (max_in_flight t)" for N
  by unfold_locales (auto simp: semFor_def)

lemma semFor_max: "semFor N h t heap = (a, t', heap') \<Longrightarrow> max_in_flight t' = max_in_flight t"
  by (auto simp: semFor_def split: if_splits)

subsection \<open>The semaphores\<close>

text \<open>The documented behaviour of \<open>semaphore.Weighted\<close>, with \<open>held\<close> and \<open>cap\<close> as its observers: it
  starts empty, grants while its cap allows, and takes back what is held.\<close>

definition weighted_contract :: "('l, 's) net_ops \<Rightarrow> ('s \<Rightarrow> int) \<Rightarrow> ('s \<Rightarrow> int) \<Rightarrow> bool" where
  "weighted_contract N held cap \<longleftrightarrow>
     (\<forall>n. held (NewWeighted N n) = 0 \<and> cap (NewWeighted N n) = n) \<and>
     (\<forall>m s s'. Acquire N m s = Proceed s' \<longrightarrow> held s' = held s + 1 \<and> held s' \<le> cap s \<and> cap s' = cap s) \<and>
     (\<forall>m s s' e. Acquire N m s = GiveUp s' e \<longrightarrow> held s' = held s \<and> cap s' = cap s) \<and>
     (\<forall>m s. held s < cap s \<longrightarrow> Acquire N m s \<noteq> Blocked) \<and>
     (\<forall>s. 0 < held s \<longrightarrow> (\<exists>s'. Release N s = Some s' \<and> held s' = held s - 1 \<and> cap s' = cap s))"

lemma weightedD:
  assumes "weighted_contract N held cap"
  shows "held (NewWeighted N n) = 0" "cap (NewWeighted N n) = n"
    and "Acquire N m s = Proceed s' \<Longrightarrow> held s' = held s + 1 \<and> held s' \<le> cap s \<and> cap s' = cap s"
    and "Acquire N m s = GiveUp s' e \<Longrightarrow> held s' = held s \<and> cap s' = cap s"
    and "held s < cap s \<Longrightarrow> Acquire N m s \<noteq> Blocked"
    and "0 < held s \<Longrightarrow> \<exists>s'. Release N s = Some s' \<and> held s' = held s - 1 \<and> cap s' = cap s"
  using assms unfolding weighted_contract_def by blast+

text \<open>What a thread has to give back, and how often an address is held by all of them.\<close>

fun released_by :: "frame list \<Rightarrow> nat list" where
  "released_by [] = []"
| "released_by (ReleaseFrame a # frs) = a # released_by frs"
| "released_by (ObserveFrame d s # frs) = released_by frs"

abbreviation held_by :: "thread \<Rightarrow> nat list" where
  "held_by th \<equiv> released_by (th_frames th)"

definition holders :: "nat \<Rightarrow> thread list \<Rightarrow> nat" where
  "holders a ths = (\<Sum>th\<leftarrow>ths. count_list (held_by th) a)"

lemma holders_simps [simp]:
  "holders a [] = 0" "holders a (th # ths) = count_list (held_by th) a + holders a ths"
  "holders a (ths @ ths') = holders a ths + holders a ths'"
  by (simp_all add: holders_def)

lemma holders_update:
  "i < length ths \<Longrightarrow> holders a (ths[i := th]) + count_list (held_by (ths ! i)) a
     = holders a ths + count_list (held_by th) a"
proof (induction ths arbitrary: i)
  case Nil
  then show ?case by simp
next
  case (Cons t ths)
  then show ?case by (cases i) auto
qed

lemma holders_pos: "0 < holders a ths \<Longrightarrow> \<exists>th \<in> set ths. a \<in> set (held_by th)"
proof (induction ths)
  case Nil
  then show ?case by simp
next
  case (Cons th ths)
  then show ?case by (cases "a \<in> set (held_by th)") (auto simp: count_list_0_iff)
qed

lemma holders_member: "th \<in> set ths \<Longrightarrow> a \<in> set (held_by th) \<Longrightarrow> 0 < holders a ths"
proof (induction ths)
  case (Cons t ths)
  have "0 < count_list (held_by th) a"
    using Cons.prems(2) count_list_0_iff [of "held_by th" a] by blast
  with Cons show ?case by auto
qed simp

lemma holders_zero: "(\<And>th. th \<in> set ths \<Longrightarrow> a \<notin> set (held_by th)) \<Longrightarrow> holders a ths = 0"
  using holders_pos [of a ths] by auto

text \<open>What a thread may hold at each point, when layer \<open>k\<close> is the semaphore's.\<close>

definition holds_host :: "(string \<rightharpoonup> nat) \<Rightarrow> thread \<Rightarrow> bool" where
  "holds_host tab th \<longleftrightarrow> (\<exists>a. tab (Hostname (th_req th)) = Some a \<and> held_by th = [a])"

definition sem_thread :: "nat \<Rightarrow> (string \<rightharpoonup> nat) \<Rightarrow> thread \<Rightarrow> bool" where
  "sem_thread k tab th \<longleftrightarrow>
     (case th_pc th of
        Enter d \<Rightarrow> if d \<le> k then held_by th = [] else holds_host tab th
      | AwaitLimiter d a \<Rightarrow> d \<noteq> k \<and> (if d < k then held_by th = [] else holds_host tab th)
      | AwaitSem d a \<Rightarrow> d = k \<and> held_by th = [] \<and> tab (Hostname (th_req th)) = Some a
      | Return r \<Rightarrow> held_by th = [] \<or> holds_host tab th)"

definition sem_ok ::
  "('s \<Rightarrow> int) \<Rightarrow> ('s \<Rightarrow> int) \<Rightarrow> int \<Rightarrow> nat \<Rightarrow> concurrencyTransport \<Rightarrow> 's list \<Rightarrow> thread list \<Rightarrow> bool" where
  "sem_ok held cap n k t heap ths \<longleftrightarrow>
     0 < n \<and> max_in_flight t = n \<and> wf_table (sems t) (length heap) \<and>
     (\<forall>a < length heap. cap (heap ! a) = n \<and> held (heap ! a) = int (holders a ths) \<and> held (heap ! a) \<le> n) \<and>
     (\<forall>th \<in> set ths. sem_thread k (sems t) th)"

lemma sem_thread_holds: "sem_thread k tab th \<Longrightarrow> a \<in> set (held_by th) \<Longrightarrow>
     tab (Hostname (th_req th)) = Some a \<and> held_by th = [a]"
  by (auto simp: sem_thread_def holds_host_def split: pc.splits if_splits)

lemma sem_thread_mono:
  "sem_thread k tab th \<Longrightarrow> (\<And>h a. tab h = Some a \<Longrightarrow> tab' h = Some a) \<Longrightarrow> sem_thread k tab' th"
  by (auto simp: sem_thread_def holds_host_def split: pc.splits if_splits)


subsection \<open>The semaphore invariant, step by step\<close>

lemma sem_okD:
  assumes "sem_ok held cap n k t heap ths"
  shows "0 < n" "max_in_flight t = n" "wf_table (sems t) (length heap)"
    and "b < length heap \<Longrightarrow> cap (heap ! b) = n"
    and "b < length heap \<Longrightarrow> held (heap ! b) = int (holders b ths)"
    and "b < length heap \<Longrightarrow> held (heap ! b) \<le> n"
    and "th \<in> set ths \<Longrightarrow> sem_thread k (sems t) th"
  using assms unfolding sem_ok_def by blast+

lemma sem_ok_less: "sem_ok held cap n k t heap ths \<Longrightarrow> sems t h = Some a \<Longrightarrow> a < length heap"
  unfolding sem_ok_def by (blast dest: wf_table_less)

lemma sem_ok_thread: "sem_ok held cap n k t heap ths \<Longrightarrow> i < length ths \<Longrightarrow> sem_thread k (sems t) (ths ! i)"
  by (simp add: sem_ok_def)

lemma sem_ok_call: "sem_ok held cap n k t heap ths \<Longrightarrow> sem_ok held cap n k t heap (ths @ [new_thread req])"
  by (auto simp: sem_ok_def new_thread_def sem_thread_def)

text \<open>A step that changes one semaphore by as much as the thread's holding.\<close>

lemma sem_ok_step:
  assumes "sem_ok held cap n k t heap ths" "i < length ths" "sem_thread k (sems t) th"
    and "\<And>b. b < length heap \<Longrightarrow> held (heap' ! b) = held (heap ! b)
           + int (count_list (held_by th) b) - int (count_list (held_by (ths ! i)) b)"
    and "\<And>b. b < length heap \<Longrightarrow> cap (heap' ! b) = cap (heap ! b) \<and> held (heap' ! b) \<le> n"
    and "length heap' = length heap"
  shows "sem_ok held cap n k t heap' (ths[i := th])"
proof -
  have "held (heap' ! b) = int (holders b (ths[i := th]))" if b: "b < length heap" for b
  proof -
    have "held (heap ! b) = int (holders b ths)" using assms(1) b by (simp add: sem_ok_def)
    with assms(4) [OF b] holders_update [OF assms(2), of b th] show ?thesis by linarith
  qed
  moreover have "\<forall>x \<in> set (ths[i := th]). sem_thread k (sems t) x"
    using assms(1,3) set_update_subset_insert [of ths i th] by (auto simp: sem_ok_def)
  ultimately show ?thesis using assms(1,5,6) by (simp add: sem_ok_def)
qed

lemma sem_ok_same:
  assumes "sem_ok held cap n k t heap ths" "i < length ths" "sem_thread k (sems t) th"
    and "held_by th = held_by (ths ! i)"
  shows "sem_ok held cap n k t heap (ths[i := th])"
  using assms by (intro sem_ok_step [OF assms(1-3)]) (auto simp: sem_ok_def)

lemma sem_ok_table:
  assumes "weighted_contract N held cap" "sem_ok held cap n k t heap ths"
    and "semFor N h t heap = (a, t', heap')"
  shows "sem_ok held cap n k t' heap' ths"
  using assms(3)
proof (cases rule: sem_table.for_host_cases)
  case old
  with assms(2) show ?thesis by simp
next
  case new
  have wf: "wf_table (sems t') (length heap')"
    using sem_table.for_host_wf [OF assms(3)] assms(2) by (simp add: sem_ok_def)
  have threads: "sem_thread k (sems t') th" if "th \<in> set ths" for th
    using assms(2) that
    by (intro sem_thread_mono [OF _ sem_table.for_host_others [OF assms(3)]]) (simp_all add: sem_ok_def)
  have "holders (length heap) ths = 0"
  proof (rule holders_zero)
    fix th
    assume th: "th \<in> set ths"
    show "length heap \<notin> set (held_by th)"
    proof
      assume "length heap \<in> set (held_by th)"
      then obtain g where "sems t g = Some (length heap)"
        using sem_thread_holds [of k "sems t" th] assms(2) th by (auto simp: sem_ok_def)
      then show False using sem_ok_less [OF assms(2)] by blast
    qed
  qed
  then have entries: "cap (heap' ! b) = n \<and> held (heap' ! b) = int (holders b ths) \<and> held (heap' ! b) \<le> n"
    if "b < length heap'" for b
  proof (cases "b < length heap")
    case True
    then show ?thesis
      using sem_okD(4-6) [OF assms(2) True] new(3) by (metis nth_append)
  next
    case False
    with that new(3) have "b = length heap" by simp
    moreover from assms(2) have "max_in_flight t = n" "0 < n" by (simp_all add: sem_ok_def)
    ultimately show ?thesis
      using new(3) weightedD(1,2) [OF assms(1)] \<open>holders (length heap) ths = 0\<close> by simp
  qed
  have "max_in_flight t' = n" "0 < n" using semFor_max [OF assms(3)] assms(2) by (simp_all add: sem_ok_def)
  with wf threads entries show ?thesis unfolding sem_ok_def by blast
qed


text \<open>The same invariant on the whole system: layer \<open>k\<close> is its only semaphore layer.\<close>

definition sem_layer :: "nat \<Rightarrow> concurrencyTransport \<Rightarrow> layer list \<Rightarrow> bool" where
  "sem_layer k t lys \<longleftrightarrow>
     k < length lys \<and> lys ! k = Concurrency t \<and> (\<forall>j u. j < length lys \<longrightarrow> lys ! j = Concurrency u \<longrightarrow> j = k)"

definition sem_inv :: "('s \<Rightarrow> int) \<Rightarrow> ('s \<Rightarrow> int) \<Rightarrow> int \<Rightarrow> nat \<Rightarrow> ('l, 's) sys \<Rightarrow> bool" where
  "sem_inv held cap n k S \<longleftrightarrow>
     (\<exists>t. sem_layer k t (layers (tr S)) \<and> sem_ok held cap n k t (sem_heap (tr S)) (threads S))"

lemma sem_layerD: "sem_layer k t lys \<Longrightarrow> lys ! k = Concurrency t" "sem_layer k t lys \<Longrightarrow> k < length lys"
  unfolding sem_layer_def by blast+

lemma sem_layer_at: "sem_layer k t lys \<Longrightarrow> d < length lys \<Longrightarrow> lys ! d = Concurrency u \<Longrightarrow> d = k \<and> u = t"
  unfolding sem_layer_def by (metis layer.inject(2))

lemma sem_layer_other:
  assumes "sem_layer k t lys" "d \<noteq> k" "\<And>u. ly \<noteq> Concurrency u"
  shows "sem_layer k t (lys[d := ly])"
  using sem_layerD [OF assms(1)] sem_layer_at [OF assms(1)] assms(2,3)
  unfolding sem_layer_def by (metis length_list_update nth_list_update_eq nth_list_update_neq)

lemma sem_layer_here: "sem_layer k t lys \<Longrightarrow> sem_layer k t' (lys[k := Concurrency t'])"
  unfolding sem_layer_def by (metis length_list_update nth_list_update_eq nth_list_update_neq)

text \<open>Going in: the layer is called, or the wait at its object ends.\<close>

lemma enter_layer_sem:
  assumes c: "weighted_contract N held cap" and ok: "sem_ok held cap n k t (sem_heap T) ths"
    and ly: "sem_layer k t (layers T)" and i: "i < length ths" "th_pc (ths ! i) = Enter d" "d < length (layers T)"
    and e: "enter_layer N m d (layers T ! d) (ths ! i) T = (th, T')"
  shows "\<exists>t'. sem_layer k t' (layers T') \<and> sem_ok held cap n k t' (sem_heap T') (ths[i := th])"
proof (cases "layers T ! d")
  case (RateLimit u)
  with sem_layerD(1) [OF ly] have d: "d \<noteq> k" by auto
  obtain a u' h where l: "limiterFor N (Hostname (th_req (ths ! i))) u (lim_heap T) = (a, u', h)"
    by (metis prod_cases3)
  from e RateLimit l have eqs: "th = (ths ! i)\<lparr> th_pc := AwaitLimiter d a \<rparr>"
      "T' = T\<lparr> layers := (layers T)[d := RateLimit u'], lim_heap := h \<rparr>"
    by (simp_all add: enter_layer_def)
  have "sem_thread k (sems t) th"
    using sem_ok_thread [OF ok i(1)] i(2) d by (simp add: eqs sem_thread_def holds_host_def split: if_splits)
  from sem_ok_same [OF ok i(1) this] sem_layer_other [OF ly d] show ?thesis
    by (intro exI [of _ t]) (simp add: eqs)
next
  case (Concurrency u)
  with sem_layer_at [OF ly i(3)] have d: "d = k" "u = t" by auto
  obtain a t' h where f: "semFor N (Hostname (th_req (ths ! i))) t (sem_heap T) = (a, t', h)"
    by (metis prod_cases3)
  have ok': "sem_ok held cap n k t' h ths" by (rule sem_ok_table [OF c ok f])
  have entry: "sems t' (Hostname (th_req (ths ! i))) = Some a" by (rule sem_table.for_host_entry [OF f])
  have "sem_thread k (sems t') (ths ! i)" by (rule sem_ok_thread [OF ok' i(1)])
  with i(2) d(1) have "held_by (ths ! i) = []" by (simp add: sem_thread_def)
  moreover from e Concurrency d f have eqs: "th = (ths ! i)\<lparr> th_pc := AwaitSem d a \<rparr>"
      "T' = T\<lparr> layers := (layers T)[d := Concurrency t'], sem_heap := h \<rparr>"
    by (simp_all add: enter_layer_def)
  ultimately have "sem_thread k (sems t') th" using entry d(1) by (simp add: eqs sem_thread_def)
  from sem_ok_same [OF ok' i(1) this] sem_layer_here [OF ly] show ?thesis
    by (intro exI [of _ t']) (simp add: eqs d(1))
next
  case (Metrics u)
  with sem_layerD(1) [OF ly] have d: "d \<noteq> k" by auto
  from e Metrics have eqs: "T' = T"
      "th = (ths ! i)\<lparr> th_pc := Enter (Suc d), th_frames := ObserveFrame d (now N m) # th_frames (ths ! i) \<rparr>"
    by (simp_all add: enter_layer_def)
  have "sem_thread k (sems t) th"
    using sem_ok_thread [OF ok i(1)] i(2) d by (simp add: eqs sem_thread_def holds_host_def split: if_splits)
  from sem_ok_same [OF ok i(1) this] ly show ?thesis
    by (intro exI [of _ t]) (simp add: eqs)
qed

lemma await_sem:
  assumes c: "weighted_contract N held cap" and ok: "sem_ok held cap n k t heap ths"
    and i: "i < length ths" "th_pc (ths ! i) = AwaitSem d a"
  shows "Acquire N m (heap ! a) = Proceed s \<Longrightarrow> sem_ok held cap n k t (heap[a := s])
       (ths[i := (ths ! i)\<lparr> th_pc := Enter (Suc d), th_frames := ReleaseFrame a # th_frames (ths ! i) \<rparr>])"
    and "Acquire N m (heap ! a) = GiveUp s e \<Longrightarrow> sem_ok held cap n k t (heap[a := s])
       (ths[i := (ths ! i)\<lparr> th_pc := Return (Returned None (Some e)) \<rparr>])"
proof -
  have th: "sem_thread k (sems t) (ths ! i)" by (rule sem_ok_thread [OF ok i(1)])
  with i(2) have d: "d = k" "held_by (ths ! i) = []" "sems t (Hostname (th_req (ths ! i))) = Some a"
    by (simp_all add: sem_thread_def)
  have a: "a < length heap" by (rule sem_ok_less [OF ok d(3)])
  have sz: "cap (heap ! b) = n" "held (heap ! b) \<le> n" if "b < length heap" for b
    using sem_okD(4,6) [OF ok that] by simp_all
  show "sem_ok held cap n k t (heap[a := s])
       (ths[i := (ths ! i)\<lparr> th_pc := Enter (Suc d), th_frames := ReleaseFrame a # th_frames (ths ! i) \<rparr>])"
    if "Acquire N m (heap ! a) = Proceed s"
    using d a sz weightedD(3) [OF c that]
    by (intro sem_ok_step [OF ok i(1)]) (auto simp: sem_thread_def holds_host_def nth_list_update)
  show "sem_ok held cap n k t (heap[a := s]) (ths[i := (ths ! i)\<lparr> th_pc := Return (Returned None (Some e)) \<rparr>])"
    if "Acquire N m (heap ! a) = GiveUp s e"
    using d a sz weightedD(4) [OF c that]
    by (intro sem_ok_step [OF ok i(1)]) (auto simp: sem_thread_def nth_list_update)
qed


text \<open>Coming back: the deferred release finds its semaphore held, so it cannot panic.\<close>

lemma holder_counts:
  assumes ok: "sem_ok held cap n k t heap ths" and "i < length ths" "a \<in> set (held_by (ths ! i))"
  shows "sems t (Hostname (th_req (ths ! i))) = Some a" "held_by (ths ! i) = [a]" "a < length heap"
    and "0 < held (heap ! a)"
proof -
  show s: "sems t (Hostname (th_req (ths ! i))) = Some a" "held_by (ths ! i) = [a]"
    using sem_thread_holds [OF sem_ok_thread [OF ok assms(2)] assms(3)] by simp_all
  show a: "a < length heap" by (rule sem_ok_less [OF ok s(1)])
  have "0 < holders a ths" by (rule holders_member [OF nth_mem [OF assms(2)] assms(3)])
  then show "0 < held (heap ! a)" using sem_okD(5) [OF ok a] by simp
qed

lemma resume_sem:
  assumes c: "weighted_contract N held cap" and ok: "sem_ok held cap n k t (sem_heap T) ths"
    and ly: "sem_layer k t (layers T)" and i: "i < length ths" "th_pc (ths ! i) = Return r"
    and fr: "th_frames (ths ! i) = fr # frs" and e: "resume N m r fr (th_req (ths ! i)) T = (r', T')"
  shows "sem_layer k t (layers T') \<and> sem_ok held cap n k t (sem_heap T')
      (ths[i := (ths ! i)\<lparr> th_pc := Return r', th_frames := frs \<rparr>])"
proof (cases fr)
  case (ReleaseFrame a)
  with fr have "a \<in> set (held_by (ths ! i))" by simp
  note h = holder_counts [OF ok i(1) this]
  from h(2) fr ReleaseFrame have frs: "released_by frs = []" by simp
  obtain s where s: "Release N (sem_heap T ! a) = Some s" "held s = held (sem_heap T ! a) - 1" "cap s = cap (sem_heap T ! a)"
    using weightedD(6) [OF c h(4)] by blast
  have "sem_ok held cap n k t ((sem_heap T)[a := s]) (ths[i := (ths ! i)\<lparr> th_pc := Return r', th_frames := frs \<rparr>])"
  proof (rule sem_ok_step [OF ok i(1)])
    show "sem_thread k (sems t) ((ths ! i)\<lparr> th_pc := Return r', th_frames := frs \<rparr>)"
      using frs by (simp add: sem_thread_def)
    fix b
    assume b: "b < length (sem_heap T)"
    show "held ((sem_heap T)[a := s] ! b) = held (sem_heap T ! b)
        + int (count_list (held_by ((ths ! i)\<lparr> th_pc := Return r', th_frames := frs \<rparr>)) b)
        - int (count_list (held_by (ths ! i)) b)"
      using h(2,3) frs s(2) b by (simp add: nth_list_update)
    show "cap ((sem_heap T)[a := s] ! b) = cap (sem_heap T ! b) \<and> held ((sem_heap T)[a := s] ! b) \<le> n"
      using sem_okD(6) [OF ok b] s(2,3) b by (cases "b = a") auto
  qed simp
  with e ReleaseFrame s(1) ly show ?thesis by (auto simp: resume_def)
next
  case (ObserveFrame d st)
  have th: "sem_thread k (sems t) ((ths ! i)\<lparr> th_pc := Return r', th_frames := frs \<rparr>)"
    using sem_ok_thread [OF ok i(1)] i(2) fr ObserveFrame by (simp add: sem_thread_def holds_host_def)
  have heap: "sem_heap T' = sem_heap T"
    using e ObserveFrame by (auto simp: resume_def observe_def split: http_result.splits layer.splits if_splits)
  have "sem_layer k t (layers T')"
  proof (cases "\<exists>u. layers T ! d = Metrics u")
    case True
    with sem_layerD(1) [OF ly] have "d \<noteq> k" by auto
    then have "sem_layer k t ((layers T)[d := Metrics v])" for v by (intro sem_layer_other [OF ly]) simp_all
    with True e ObserveFrame ly show ?thesis
      by (auto simp: resume_def observe_def split: http_result.splits if_splits)
  next
    case False
    with e ObserveFrame ly show ?thesis
      by (auto simp: resume_def observe_def split: http_result.splits layer.splits)
  qed
  with sem_ok_same [OF ok i(1) th] fr ObserveFrame heap show ?thesis by simp
qed

lemma perform_sem_inv:
  assumes c: "weighted_contract N held cap" and inv: "sem_inv held cap n k S" and p: "perform N act S = Some S'"
  shows "sem_inv held cap n k S'"
proof (cases act)
  case (Call req)
  with p have S': "S' = S\<lparr> threads := threads S @ [new_thread req] \<rparr>" by simp
  from inv show ?thesis unfolding sem_inv_def S' by (auto dest: sem_ok_call)
next
  case (Move m i)
  from inv obtain t where ly: "sem_layer k t (layers (tr S))"
    and ok: "sem_ok held cap n k t (sem_heap (tr S)) (threads S)"
    by (auto simp: sem_inv_def)
  from p Move obtain th T where i: "i < length (threads S)"
    and ad: "advance N m (threads S ! i) (tr S) = Some (th, T)"
    and S': "S' = S\<lparr> tr := T, threads := (threads S)[i := th] \<rparr>"
    by (auto split: if_splits option.splits)
  note thi = sem_ok_thread [OF ok i]
  have "\<exists>t'. sem_layer k t' (layers T) \<and> sem_ok held cap n k t' (sem_heap T) ((threads S)[i := th])"
  proof (cases "th_pc (threads S ! i)")
    case (Enter d)
    show ?thesis
    proof (cases "d < length (layers (tr S))")
      case True
      with ad Enter show ?thesis by (intro enter_layer_sem [OF c ok ly i Enter True]) simp
    next
      case False
      with sem_layerD(2) [OF ly] have "k < d" by simp
      with False ad Enter thi ly show ?thesis
        by (intro exI [of _ t]) (auto simp: Let_def sem_thread_def holds_host_def intro!: sem_ok_same [OF ok i])
    qed
  next
    case (AwaitLimiter d a)
    with thi have "sem_thread k (sems t) ((threads S ! i)\<lparr> th_pc := Enter (Suc d) \<rparr>)"
      and "sem_thread k (sems t) ((threads S ! i)\<lparr> th_pc := Return r \<rparr>)" for r
      by (auto simp: sem_thread_def holds_host_def split: if_splits)
    from sem_ok_same [OF ok i this(1)] sem_ok_same [OF ok i this(2)] AwaitLimiter ad ly show ?thesis
      by (intro exI [of _ t]) (auto split: blocking.splits)
  next
    case (AwaitSem d a)
    from await_sem [OF c ok i AwaitSem] AwaitSem ad ly show ?thesis
      by (intro exI [of _ t]) (auto split: blocking.splits)
  next
    case (Return r)
    with ad obtain fr frs r' where "th_frames (threads S ! i) = fr # frs"
      "resume N m r fr (th_req (threads S ! i)) (tr S) = (r', T)"
      "th = (threads S ! i)\<lparr> th_pc := Return r', th_frames := frs \<rparr>"
      by (auto split: list.splits prod.splits)
    with resume_sem [OF c ok ly i Return] show ?thesis by blast
  qed
  then show ?thesis by (simp add: sem_inv_def S')
qed

lemma reachable_sem_inv:
  assumes "weighted_contract N held cap" "reachable N T0 S" "sem_inv held cap n k \<lparr> tr = T0, threads = [] \<rparr>"
  shows "sem_inv held cap n k S"
  using assms(2)
  by (induction rule: reachable.induct) (use assms(1,3) in \<open>auto intro: perform_sem_inv\<close>)


subsection \<open>The metrics invariant\<close>

text \<open>The metrics layer is the innermost one. \<open>counted\<close> are the requests the base answered, whose labels
  the library accepts and whose metrics layer is done.\<close>

fun observers :: "frame list \<Rightarrow> nat list" where
  "observers [] = []"
| "observers (ObserveFrame d s # frs) = d # observers frs"
| "observers (ReleaseFrame a # frs) = observers frs"

definition request_labels :: "thread \<Rightarrow> string list option" where
  "request_labels th =
     (case th_base th of
        Some (Returned resp err) \<Rightarrow> Some [Hostname (th_req th), Method (th_req th), code_label resp]
      | _ \<Rightarrow> None)"

lemma request_labels_update [simp]:
  "request_labels (th\<lparr> th_pc := p, th_frames := f \<rparr>) = request_labels th"
  "request_labels (th\<lparr> th_pc := p \<rparr>) = request_labels th"
  by (simp_all add: request_labels_def split: option.splits http_result.splits)

definition counted :: "('l, 's) net_ops \<Rightarrow> string list \<Rightarrow> thread \<Rightarrow> bool" where
  "counted N ls th \<longleftrightarrow> observers (th_frames th) = [] \<and> request_labels th = Some ls \<and> values_ok N 3 ls"

definition metric_thread :: "nat \<Rightarrow> thread \<Rightarrow> bool" where
  "metric_thread k th \<longleftrightarrow>
     (case th_pc th of
        Enter d \<Rightarrow> th_base th = None \<and> observers (th_frames th) = (if d \<le> k then [] else [k])
          \<and> (k < d \<longrightarrow> (\<exists>st frs. th_frames th = ObserveFrame k st # frs))
      | AwaitLimiter d a \<Rightarrow> d < k \<and> th_base th = None \<and> observers (th_frames th) = []
      | AwaitSem d a \<Rightarrow> d < k \<and> th_base th = None \<and> observers (th_frames th) = []
      | Return r \<Rightarrow> observers (th_frames th) = []
          \<or> (th_base th = Some r \<and> (\<exists>st frs. th_frames th = ObserveFrame k st # frs \<and> observers frs = [])))"

definition metric_layer :: "nat \<Rightarrow> metricsTransport \<Rightarrow> layer list \<Rightarrow> bool" where
  "metric_layer k t lys \<longleftrightarrow>
     length lys = Suc k \<and> lys ! k = Metrics t \<and> (\<forall>j u. j < k \<longrightarrow> lys ! j \<noteq> Metrics u)"

definition metric_inv :: "('l, 's) net_ops \<Rightarrow> nat \<Rightarrow> ('l, 's) sys \<Rightarrow> bool" where
  "metric_inv N k S \<longleftrightarrow>
     (\<exists>t. metric_layer k t (layers (tr S)) \<and>
       (\<forall>ls. req_total t ls = length (filter (counted N ls) (threads S)) \<and> length (req_duration t ls) = req_total t ls) \<and>
       (\<forall>th \<in> set (threads S). metric_thread k th))"

lemma metric_layerD:
  "metric_layer k t lys \<Longrightarrow> length lys = Suc k" "metric_layer k t lys \<Longrightarrow> lys ! k = Metrics t"
  "metric_layer k t lys \<Longrightarrow> j < k \<Longrightarrow> lys ! j \<noteq> Metrics u"
  unfolding metric_layer_def by blast+

lemma metric_layer_other:
  "metric_layer k t lys \<Longrightarrow> d \<noteq> k \<Longrightarrow> (\<And>u. ly \<noteq> Metrics u) \<Longrightarrow> metric_layer k t (lys[d := ly])"
  unfolding metric_layer_def by (metis length_list_update nth_list_update_eq nth_list_update_neq list_update_beyond not_less)

lemma metric_layer_here: "metric_layer k t lys \<Longrightarrow> metric_layer k t' (lys[k := Metrics t'])"
  unfolding metric_layer_def by (simp add: nth_list_update)

lemma filter_update:
  "i < length xs \<Longrightarrow> length (filter P (xs[i := x])) + (if P (xs ! i) then 1 else 0)
     = length (filter P xs) + (if P x then 1 else 0)"
proof (induction xs arbitrary: i)
  case Nil
  then show ?case by simp
next
  case (Cons y xs)
  show ?case
  proof (cases i)
    case 0
    then show ?thesis by simp
  next
    case (Suc j)
    with Cons.IH [of j] Cons.prems show ?thesis by (cases "P y") simp_all
  qed
qed

text \<open>A step that leaves the metrics layer and the counted requests alone.\<close>

lemma metric_inv_same:
  assumes "metric_inv N k S" "i < length (threads S)" "metric_thread k th"
    and "\<And>ls. counted N ls th \<longleftrightarrow> counted N ls (threads S ! i)"
    and "\<And>t. metric_layer k t (layers (tr S)) \<Longrightarrow> metric_layer k t (layers T)"
  shows "metric_inv N k (S\<lparr> tr := T, threads := (threads S)[i := th] \<rparr>)"
proof -
  have "length (filter (counted N ls) ((threads S)[i := th])) = length (filter (counted N ls) (threads S))" for ls
    using filter_update [OF assms(2), of "counted N ls" th] assms(4) [of ls] by (simp split: if_splits)
  moreover have "\<forall>x \<in> set ((threads S)[i := th]). metric_thread k x"
    using assms(1,3) set_update_subset_insert [of "threads S" i th] by (auto simp: metric_inv_def)
  ultimately show ?thesis using assms(1,5) unfolding metric_inv_def by fastforce
qed


text \<open>The observation of a request: the one step that counts.\<close>

lemma metric_inv_observe:
  assumes inv: "metric_inv N k S" and i: "i < length (threads S)" "th_pc (threads S ! i) = Return r"
    and fr: "th_frames (threads S ! i) = ObserveFrame k st # frs" "observers frs = []"
    and base: "th_base (threads S ! i) = Some r"
    and e: "resume N m r (ObserveFrame k st) (th_req (threads S ! i)) (tr S) = (r', T)"
  shows "metric_inv N k (S\<lparr> tr := T, threads := (threads S)[i := (threads S ! i)\<lparr> th_pc := Return r', th_frames := frs \<rparr>] \<rparr>)"
proof -
  let ?old = "threads S ! i" and ?new = "(threads S ! i)\<lparr> th_pc := Return r', th_frames := frs \<rparr>"
  from inv obtain t where t: "metric_layer k t (layers (tr S))"
    and counts: "\<forall>ls. req_total t ls = length (filter (counted N ls) (threads S)) \<and> length (req_duration t ls) = req_total t ls"
    and ths: "\<forall>th \<in> set (threads S). metric_thread k th"
    unfolding metric_inv_def by (elim exE conjE)
  from counts have total: "req_total t ls = length (filter (counted N ls) (threads S))"
    and dur: "length (req_duration t ls) = req_total t ls" for ls by simp_all
  have new: "metric_thread k ?new" using fr(2) by (simp add: metric_thread_def)
  have old: "\<not> counted N ls ?old" for ls using fr by (simp add: counted_def)
  show ?thesis
  proof (cases "\<exists>resp err. r = Returned resp err \<and> values_ok N 3 [Hostname (th_req ?old), Method (th_req ?old), code_label resp]")
    case False
    then have "T = tr S" using e metric_layerD(2) [OF t]
      by (auto simp: resume_def observe_def split: http_result.splits if_splits)
    moreover have "\<not> counted N ls ?new" for ls
      using False base by (auto simp: counted_def request_labels_def split: http_result.splits)
    ultimately show ?thesis using old t by (intro metric_inv_same [OF inv i(1) new]) simp_all
  next
    case True
    then obtain resp err where r: "r = Returned resp err"
      and ok: "values_ok N 3 [Hostname (th_req ?old), Method (th_req ?old), code_label resp]" by blast
    define ls0 where "ls0 = [Hostname (th_req ?old), Method (th_req ?old), code_label resp]"
    define u where "u = record_request (th_req ?old) resp (nanos (now N m) - nanos st) t"
    have T: "T = (tr S)\<lparr> layers := (layers (tr S))[k := Metrics u] \<rparr>"
      using e r ok metric_layerD(2) [OF t] by (simp add: resume_def observe_def u_def)
    have cnt: "counted N ls ?new \<longleftrightarrow> ls = ls0" for ls
      using fr(2) base r ok by (auto simp: counted_def request_labels_def ls0_def)
    have u: "req_total u ls = (if ls = ls0 then Suc (req_total t ls) else req_total t ls)"
      "length (req_duration u ls) = (if ls = ls0 then Suc (length (req_duration t ls)) else length (req_duration t ls))" for ls
      by (simp_all add: u_def record_request_def ls0_def Let_def)
    have "req_total u ls = length (filter (counted N ls) ((threads S)[i := ?new]))" for ls
      using filter_update [OF i(1), of "counted N ls" ?new] old [of ls] cnt [of ls] total [of ls] u(1) [of ls]
      by (simp split: if_splits)
    moreover have "\<forall>x \<in> set ((threads S)[i := ?new]). metric_thread k x"
      using ths new set_update_subset_insert [of "threads S" i ?new] by auto
    moreover have "length (req_duration u ls) = req_total u ls" for ls using u dur [of ls] by auto
    moreover have "metric_layer k u (layers T)" using metric_layer_here [OF t] T by simp
    ultimately show ?thesis unfolding metric_inv_def by (intro exI [of _ u]) simp
  qed
qed


lemma perform_metric_inv:
  assumes inv: "metric_inv N k S" and p: "perform N act S = Some S'"
  shows "metric_inv N k S'"
proof (cases act)
  case (Call req)
  with p have S': "S' = S\<lparr> threads := threads S @ [new_thread req] \<rparr>" by simp
  have "\<not> counted N ls (new_thread req)" "metric_thread k (new_thread req)" for ls
    by (simp_all add: counted_def request_labels_def new_thread_def metric_thread_def)
  with inv show ?thesis by (fastforce simp: metric_inv_def S')
next
  case (Move m i)
  from p Move obtain th T where i: "i < length (threads S)"
    and ad: "advance N m (threads S ! i) (tr S) = Some (th, T)"
    and S': "S' = S\<lparr> tr := T, threads := (threads S)[i := th] \<rparr>"
    by (auto split: if_splits option.splits)
  let ?old = "threads S ! i"
  from inv i obtain t where ly: "metric_layer k t (layers (tr S))" and thi: "metric_thread k ?old"
    by (auto simp: metric_inv_def)
  note len = metric_layerD(1) [OF ly]
  note same = metric_inv_same [OF inv i]
  show ?thesis
  proof (cases "th_pc ?old")
    case (Enter d)
    then have base: "th_base ?old = None" using thi by (simp add: metric_thread_def)
    show ?thesis
    proof (cases "d < length (layers (tr S))")
      case True
      with ad Enter have e: "enter_layer N m d (layers (tr S) ! d) ?old (tr S) = (th, T)" by simp
      have d: "d < k \<or> (d = k \<and> layers (tr S) ! d = Metrics t)"
        using True len metric_layerD(2) [OF ly] by (cases "d = k") simp_all
      have d': "d < k" if "\<And>u. layers (tr S) ! d \<noteq> Metrics u" using d that by blast
      have "metric_thread k th \<and> th_base th = None"
        using e d d' thi base Enter metric_layerD(3) [OF ly, of d]
        by (auto simp: enter_layer_def metric_thread_def split: layer.splits prod.splits)
      moreover have "metric_layer k v (layers T)" if "metric_layer k v (layers (tr S))" for v
        using e d d' metric_layer_other [OF that] that
        by (auto simp: enter_layer_def split: layer.splits prod.splits)
      ultimately show ?thesis
        unfolding S' using base by (intro same) (auto simp: counted_def request_labels_def)
    next
      case False
      with ad Enter obtain r where th: "th = ?old\<lparr> th_pc := Return r, th_base := Some r \<rparr>" "T = tr S"
        by (auto simp: Let_def)
      have "k < d" using False len by simp
      with thi Enter obtain st frs where fr: "th_frames ?old = ObserveFrame k st # frs" "observers frs = []"
        by (auto simp: metric_thread_def)
      then show ?thesis
        unfolding S' using th by (intro same) (auto simp: counted_def metric_thread_def)
    qed
  next
    case (AwaitLimiter d a)
    with ad thi show ?thesis
      unfolding S' by (intro same) (auto simp: counted_def request_labels_def metric_thread_def split: blocking.splits)
  next
    case (AwaitSem d a)
    with ad thi show ?thesis
      unfolding S' by (intro same) (auto simp: counted_def request_labels_def metric_thread_def split: blocking.splits)
  next
    case (Return r)
    with ad obtain fr frs r' where fr: "th_frames ?old = fr # frs"
      and e: "resume N m r fr (th_req ?old) (tr S) = (r', T)"
      and th: "th = ?old\<lparr> th_pc := Return r', th_frames := frs \<rparr>"
      by (auto split: list.splits prod.splits)
    show ?thesis
    proof (cases "observers (th_frames ?old) = []")
      case True
      with fr obtain a where "fr = ReleaseFrame a" by (cases fr) auto
      with e fr True th show ?thesis
        unfolding S' by (intro same) (auto simp: resume_def counted_def metric_thread_def split: option.splits)
    next
      case False
      with thi Return fr obtain st where o: "fr = ObserveFrame k st" "observers frs = []" "th_base ?old = Some r"
        by (auto simp: metric_thread_def)
      show ?thesis unfolding S' th
        by (rule metric_inv_observe [OF inv i Return]) (use fr o e in auto)
    qed
  qed
qed

lemma reachable_metric_inv:
  assumes "reachable N T0 S" "metric_inv N k \<lparr> tr = T0, threads = [] \<rparr>"
  shows "metric_inv N k S"
  using assms(1) by (induction rule: reachable.induct) (use assms(2) in \<open>auto intro: perform_metric_inv\<close>)


subsection \<open>The composed transport\<close>

text \<open>The layers \<open>newRegistryTransport\<close> stacks, outermost first.\<close>

definition composed_layers :: "int \<Rightarrow> float64 \<Rightarrow> 'r option \<Rightarrow> layer list" where
  "composed_layers n r reg =
     (if float_positive r then [RateLimit \<lparr> rps = r, burst = max 1 n, limiters = Map.empty \<rparr>] else [])
     @ (if 0 < n then [Concurrency \<lparr> max_in_flight = n, sems = Map.empty \<rparr>] else [])
     @ (if reg \<noteq> None then [Metrics \<lparr> req_total = (\<lambda>_. 0), req_duration = (\<lambda>_. []) \<rparr>] else [])"

lemma newRegistryTransport_Ok:
  "newRegistryTransport register dflt base n r reg = Ok (T, reg') \<Longrightarrow>
     layers T = composed_layers n r reg \<and> lim_heap T = [] \<and> sem_heap T = []
     \<and> tr_base T = (case base of None \<Rightarrow> dflt | Some b \<Rightarrow> b)"
  by (auto simp: newRegistryTransport_def newMetricsTransport_def newConcurrencyTransport_def newRateLimitTransport_def
      composed_layers_def Let_def max_def split: option.splits if_splits)

lemma composed_sem_inv:
  assumes "newRegistryTransport register dflt base n r reg = Ok (T, reg')" "0 < n"
  shows "\<exists>k. sem_inv held cap n k \<lparr> tr = T, threads = [] \<rparr>"
proof -
  let ?t = "\<lparr> max_in_flight = n, sems = Map.empty \<rparr>" and ?k = "if float_positive r then 1 else 0 :: nat"
  have "sem_layer ?k ?t (composed_layers n r reg)"
    using assms(2) by (auto simp: sem_layer_def composed_layers_def nth_Cons split: nat.splits if_splits)
  moreover have "sem_ok held cap n ?k ?t [] []" using assms(2) by (simp add: sem_ok_def wf_table_def)
  ultimately show ?thesis
    using newRegistryTransport_Ok [OF assms(1)] by (intro exI [of _ ?k]) (auto simp: sem_inv_def)
qed

lemma composed_metric_inv:
  assumes "newRegistryTransport register dflt base n r reg = Ok (T, reg')" "reg \<noteq> None"
  shows "\<exists>k. metric_inv N k \<lparr> tr = T, threads = [] \<rparr>"
proof -
  let ?t = "\<lparr> req_total = (\<lambda>_. 0), req_duration = (\<lambda>_. []) \<rparr>"
  let ?k = "(if float_positive r then 1 else 0) + (if 0 < n then 1 else 0 :: nat)"
  have "metric_layer ?k ?t (composed_layers n r reg)"
    using assms(2) by (auto simp: metric_layer_def composed_layers_def nth_Cons less_Suc_eq split: nat.splits if_splits)
  then show ?thesis
    using newRegistryTransport_Ok [OF assms(1)] by (intro exI [of _ ?k]) (auto simp: metric_inv_def)
qed

text \<open>\<open>calling T h th\<close>: the thread is inside the base transport with a request to host \<open>h\<close>.\<close>

definition calling :: "('l, 's) transport \<Rightarrow> string \<Rightarrow> thread \<Rightarrow> bool" where
  "calling T h th \<longleftrightarrow> th_pc th = Enter (length (layers T)) \<and> Hostname (th_req th) = h"

lemma filter_holders:
  "(\<And>th. th \<in> set ths \<Longrightarrow> P th \<Longrightarrow> held_by th = [a]) \<Longrightarrow> length (filter P ths) \<le> holders a ths"
  by (induction ths) (auto simp: le_SucI trans_le_add2)

lemma sem_inv_calling:
  assumes "sem_inv held cap n k S"
  shows "int (length (filter (calling (tr S) h) (threads S))) \<le> n"
proof -
  from assms obtain t where ly: "sem_layer k t (layers (tr S))"
    and ok: "sem_ok held cap n k t (sem_heap (tr S)) (threads S)" by (auto simp: sem_inv_def)
  have holds: "\<exists>a. sems t h = Some a \<and> held_by th = [a]" if "th \<in> set (threads S)" "calling (tr S) h th" for th
    using sem_okD(7) [OF ok that(1)] that(2) sem_layerD(2) [OF ly]
    by (auto simp: calling_def sem_thread_def holds_host_def)
  show ?thesis
  proof (cases "sems t h")
    case None
    with holds have "filter (calling (tr S) h) (threads S) = []" by (fastforce simp: filter_empty_conv)
    then show ?thesis using sem_okD(1) [OF ok] by simp
  next
    case (Some a)
    have "length (filter (calling (tr S) h) (threads S)) \<le> holders a (threads S)"
      using holds Some by (intro filter_holders) auto
    with sem_okD(5,6) [OF ok sem_ok_less [OF ok Some]] show ?thesis by linarith
  qed
qed

lemma sem_inv_held:
  assumes "sem_inv held cap n k S"
  shows "a < length (sem_heap (tr S)) \<Longrightarrow> held (sem_heap (tr S) ! a) = int (holders a (threads S))"
    and "list_all finished (threads S) \<Longrightarrow> s \<in> set (sem_heap (tr S)) \<Longrightarrow> held s = 0"
proof -
  from assms obtain t where ok: "sem_ok held cap n k t (sem_heap (tr S)) (threads S)" by (auto simp: sem_inv_def)
  show eq: "held (sem_heap (tr S) ! a) = int (holders a (threads S))" if "a < length (sem_heap (tr S))" for a
    by (rule sem_okD(5) [OF ok that])
  have "holders a (threads S) = 0" if "list_all finished (threads S)" for a
    using that by (intro holders_zero) (metis finished_frames list_all_iff released_by.simps(1) empty_iff empty_set)
  with eq show "list_all finished (threads S) \<Longrightarrow> s \<in> set (sem_heap (tr S)) \<Longrightarrow> held s = 0"
    by (auto simp: in_set_conv_nth)
qed


lemma sem_inv_progress:
  assumes c: "weighted_contract N held cap" and inv: "sem_inv held cap n k S"
    and wait: "\<And>l. Wait N m l \<noteq> Blocked" and th: "th \<in> set (threads S)" "\<not> finished th"
  shows "\<exists>i S'. perform N (Move m i) S = Some S'"
proof -
  from inv obtain t where ok: "sem_ok held cap n k t (sem_heap (tr S)) (threads S)" by (auto simp: sem_inv_def)
  have go: ?thesis if "i < length (threads S)" "advance N m (threads S ! i) (tr S) \<noteq> None" for i
    using that by (intro exI [of _ i]) auto
  have step: "advance N m x (tr S) \<noteq> None"
    if "\<not> finished x" "\<And>d a. th_pc x = AwaitSem d a \<Longrightarrow> Acquire N m (sem_heap (tr S) ! a) \<noteq> Blocked" for x
    using that wait by (cases "th_pc x") (auto simp: finished_def Let_def split: blocking.splits list.splits prod.splits)
  from th obtain i where i: "i < length (threads S)" "threads S ! i = th" by (auto simp: in_set_conv_nth)
  show ?thesis
  proof (cases "\<exists>d a. th_pc th = AwaitSem d a \<and> Acquire N m (sem_heap (tr S) ! a) = Blocked")
    case False
    with step [OF th(2)] have "advance N m th (tr S) \<noteq> None" by blast
    with go [OF i(1)] i(2) show ?thesis by simp
  next
    case True
    then obtain d a where da: "th_pc th = AwaitSem d a" "Acquire N m (sem_heap (tr S) ! a) = Blocked" by blast
    with sem_okD(7) [OF ok th(1)] have entry: "sems t (Hostname (th_req th)) = Some a" by (simp add: sem_thread_def)
    note a = sem_ok_less [OF ok entry]
    have "\<not> held (sem_heap (tr S) ! a) < cap (sem_heap (tr S) ! a)" using weightedD(5) [OF c] da(2) by blast
    then have "0 < holders a (threads S)" using sem_okD(1,4,5) [OF ok] a by fastforce
    then obtain x where x: "x \<in> set (threads S)" "a \<in> set (held_by x)" using holders_pos by blast
    have "\<not> finished x" using x(2) finished_frames [of x] by auto
    moreover have "th_pc x \<noteq> AwaitSem d' a'" for d' a'
      using sem_okD(7) [OF ok x(1)] x(2) by (auto simp: sem_thread_def)
    ultimately have "advance N m x (tr S) \<noteq> None" by (intro step) auto
    moreover from x(1) obtain j where "j < length (threads S)" "threads S ! j = x" by (auto simp: in_set_conv_nth)
    ultimately show ?thesis using go [of j] by simp
  qed
qed

subsection \<open>Properties\<close>

text \<open>An instance of the parameters for the examples: limiters never wait, a semaphore is its holding and its
  size, the base answers 200.\<close>

definition example_net :: "(unit, int \<times> int) net_ops" where
  "example_net =
     \<lparr> NewLimiter = (\<lambda>_ _. ()), Wait = (\<lambda>_ l. Proceed l),
       NewWeighted = (\<lambda>n. (0, n)),
       Acquire = (\<lambda>_ s. if fst s < snd s then Proceed (fst s + 1, snd s) else Blocked),
       Release = (\<lambda>s. if 0 < fst s then Some (fst s - 1, snd s) else None),
       base_RoundTrip = (\<lambda>_ _ _. Returned (Some 200) None),
       now = (\<lambda>n. At (int n)), values_ok = example_labels \<rparr>"

lemma example_net_contract: "weighted_contract example_net fst snd"
  by (auto simp: weighted_contract_def example_net_def)

definition example_transport :: "(unit, int \<times> int) transport" where
  "example_transport = \<lparr> tr_base = 0, layers = composed_layers 1 (Finite 5 0) (Some ()), lim_heap = [], sem_heap = [] \<rparr>"

lemma example_transport_new:
  "newRegistryTransport (\<lambda>_. Some) 0 None 1 (Finite 5 0) (Some ()) = Ok (example_transport, Some ())"
  by (simp add: newRegistryTransport_def newMetricsTransport_def newConcurrencyTransport_def newRateLimitTransport_def
      composed_layers_def example_transport_def Let_def)

definition two_requests :: "action list" where
  "two_requests =
     [Call \<lparr> URL_Host = ''r.io:443'', Method = ''GET'' \<rparr>, Call \<lparr> URL_Host = ''r.io'', Method = ''GET'' \<rparr>,
      Move 0 0, Move 1 0, Move 2 0, Move 3 0, Move 4 0, Move 5 1, Move 6 1, Move 7 1]"

definition example_system :: "(unit, int \<times> int) sys" where
  "example_system = the (perform_all example_net two_requests \<lparr> tr = example_transport, threads = [] \<rparr>)"

lemma example_system_runs:
  "perform_all example_net two_requests \<lparr> tr = example_transport, threads = [] \<rparr> \<noteq> None"
  "length (filter (calling (tr example_system) ''r.io'') (threads example_system)) = 1"
  "map th_pc (threads example_system) = [Enter 3, AwaitSem 1 0]"
  by code_simp+


lemma example_reachable:
  "perform_all example_net acts \<lparr> tr = example_transport, threads = [] \<rparr> \<noteq> None \<Longrightarrow>
     reachable example_net example_transport (the (perform_all example_net acts \<lparr> tr = example_transport, threads = [] \<rparr>))"
  by (auto intro: perform_all_reachable [OF reachable.start])

lemma example_system_reachable: "reachable example_net example_transport example_system"
  unfolding example_system_def by (rule example_reachable [OF example_system_runs(1)])

text \<open>C10. At no moment, however the requests interleave, are more than \<open>n\<close> requests to one host inside the base
  transport: different spellings of the host's port share one semaphore, and so do all reconcilers.\<close>

theorem transport_bounds_in_flight:
  assumes "weighted_contract N held cap" "newRegistryTransport register dflt base n r reg = Ok (T0, reg')"
    and "0 < n" "reachable N T0 S"
  shows "int (length (filter (calling (tr S) h) (threads S))) \<le> n"
proof -
  obtain k where "sem_inv held cap n k \<lparr> tr = T0, threads = [] \<rparr>" using composed_sem_inv [OF assms(2,3)] ..
  with reachable_sem_inv [OF assms(1,4)] show ?thesis by (intro sem_inv_calling)
qed

theorem transport_bounds_in_flight_witness:
  "int (length (filter (calling (tr example_system) ''r.io'') (threads example_system))) \<le> 1"
  by (rule transport_bounds_in_flight [OF example_net_contract example_transport_new _ example_system_reachable]) simp

text \<open>C12. No request leaks its slot, whether it succeeds, fails, is cancelled while waiting or panics: a semaphore holds
  exactly what unfinished requests still have to release, and nothing once all are finished.\<close>

theorem transport_releases:
  assumes "weighted_contract N held cap" "newRegistryTransport register dflt base n r reg = Ok (T0, reg')"
    and "0 < n" "reachable N T0 S"
  shows "(\<forall>a < length (sem_heap (tr S)). held (sem_heap (tr S) ! a) = int (holders a (threads S)))
     \<and> (list_all finished (threads S) \<longrightarrow> (\<forall>s \<in> set (sem_heap (tr S)). held s = 0))"
proof -
  obtain k where "sem_inv held cap n k \<lparr> tr = T0, threads = [] \<rparr>" using composed_sem_inv [OF assms(2,3)] ..
  with reachable_sem_inv [OF assms(1,4)] have "sem_inv held cap n k S" .
  then show ?thesis using sem_inv_held [of held cap n k S] by blast
qed

theorem transport_releases_witness:
  "fst (sem_heap (tr example_system) ! 0) = 1 \<and> holders 0 (threads example_system) = 1"
proof -
  have "length (sem_heap (tr example_system)) = 1" "holders 0 (threads example_system) = 1" by code_simp+
  then show ?thesis
    using transport_releases [OF example_net_contract example_transport_new _ example_system_reachable] by simp
qed

text \<open>C36. Requests cannot deadlock on the semaphores: while one is unfinished, some request can make a step, as long as
  the rate limiters let the waiting ones pass.\<close>

theorem transport_progress:
  assumes "weighted_contract N held cap" "newRegistryTransport register dflt base n r reg = Ok (T0, reg')"
    and "0 < n" "reachable N T0 S"
    and "\<And>l. Wait N m l \<noteq> Blocked" "th \<in> set (threads S)" "\<not> finished th"
  shows "\<exists>i S'. perform N (Move m i) S = Some S'"
proof -
  obtain k where "sem_inv held cap n k \<lparr> tr = T0, threads = [] \<rparr>" using composed_sem_inv [OF assms(2,3)] ..
  with reachable_sem_inv [OF assms(1,4)] have "sem_inv held cap n k S" .
  then show ?thesis by (rule sem_inv_progress [OF assms(1) _ assms(5-7)])
qed

theorem transport_progress_witness:
  "\<exists>i S'. perform example_net (Move 8 i) example_system = Some S'"
proof (rule transport_progress [OF example_net_contract example_transport_new _ example_system_reachable])
  show "threads example_system ! 0 \<in> set (threads example_system)" "\<not> finished (threads example_system ! 0)"
    by code_simp+
qed (simp_all add: example_net_def)

text \<open>C37. The request metrics are exact: once all requests are finished, the counter of a host, method and code is the
  number of requests the registry answered so, and as many latencies are observed; requests cancelled in
  the outer layers count nowhere, and those whose labels the library refuses panic instead.\<close>

theorem transport_counts_requests:
  assumes "newRegistryTransport register dflt base n r (Some g) = Ok (T0, reg')" "reachable N T0 S"
    and "list_all finished (threads S)"
  shows "\<exists>t. last (layers (tr S)) = Metrics t \<and>
     (\<forall>ls. req_total t ls = length (filter (\<lambda>th. request_labels th = Some ls \<and> values_ok N 3 ls) (threads S))
        \<and> length (req_duration t ls) = req_total t ls)"
proof -
  obtain k where "metric_inv N k \<lparr> tr = T0, threads = [] \<rparr>" using composed_metric_inv [OF assms(1), of N] by blast
  with reachable_metric_inv [OF assms(2)] have "metric_inv N k S" .
  then obtain t where t: "metric_layer k t (layers (tr S))"
    and eq: "\<forall>ls. req_total t ls = length (filter (counted N ls) (threads S)) \<and> length (req_duration t ls) = req_total t ls"
    unfolding metric_inv_def by blast
  have "filter (counted N ls) (threads S) = filter (\<lambda>th. request_labels th = Some ls \<and> values_ok N 3 ls) (threads S)" for ls
    using assms(3) by (intro filter_cong) (auto simp: counted_def list_all_iff finished_frames)
  moreover have "last (layers (tr S)) = Metrics t"
    using metric_layerD(1,2) [OF t] by (metis diff_Suc_1 last_conv_nth length_0_conv nat.distinct(1))
  ultimately show ?thesis using eq by auto
qed

definition finished_system :: "(unit, int \<times> int) sys" where
  "finished_system = the (perform_all example_net
     (two_requests @ [Move 8 0, Move 9 0, Move 10 0, Move 11 1, Move 12 1, Move 13 1, Move 14 1, Move 15 1])
     \<lparr> tr = example_transport, threads = [] \<rparr>)"

theorem transport_counts_requests_witness:
  "\<exists>t. last (layers (tr finished_system)) = Metrics t \<and> req_total t [''r.io'', ''GET'', ''200''] = 2"
proof -
  have r: "reachable example_net example_transport finished_system"
    unfolding finished_system_def by (rule example_reachable) code_simp
  have "list_all finished (threads finished_system)" by code_simp
  from transport_counts_requests [OF example_transport_new r this]
  obtain t where "last (layers (tr finished_system)) = Metrics t"
    and "req_total t [''r.io'', ''GET'', ''200''] = length (filter (\<lambda>th. request_labels th = Some [''r.io'', ''GET'', ''200'']
        \<and> values_ok example_net 3 [''r.io'', ''GET'', ''200'']) (threads finished_system))" by blast
  moreover have "length (filter (\<lambda>th. request_labels th = Some [''r.io'', ''GET'', ''200'']
        \<and> values_ok example_net 3 [''r.io'', ''GET'', ''200'']) (threads finished_system)) = 2" by code_simp
  ultimately show ?thesis by auto
qed


subsection \<open>Termination\<close>

text \<open>\<open>L\<close> is the number of layers. Every move of a request makes its \<open>rank\<close> smaller.\<close>

definition rank :: "nat \<Rightarrow> thread \<Rightarrow> nat" where
  "rank L th = length (th_frames th) +
     (case th_pc th of
        Enter d \<Rightarrow> 3 * (L - d) + 2
      | AwaitLimiter d a \<Rightarrow> 3 * (L - d) + 1
      | AwaitSem d a \<Rightarrow> 3 * (L - d) + 1
      | Return r \<Rightarrow> 0)"

definition waits_inside :: "nat \<Rightarrow> thread \<Rightarrow> bool" where
  "waits_inside L th = (case th_pc th of AwaitLimiter d a \<Rightarrow> d < L | AwaitSem d a \<Rightarrow> d < L | _ \<Rightarrow> True)"

fun moves :: "action list \<Rightarrow> nat" where
  "moves [] = 0"
| "moves (Move n i # acts) = Suc (moves acts)"
| "moves (Call req # acts) = moves acts"

fun calls :: "action list \<Rightarrow> nat" where
  "calls [] = 0"
| "calls (Move n i # acts) = calls acts"
| "calls (Call req # acts) = Suc (calls acts)"

lemma resume_layers: "resume N n r fr req T = (r', T') \<Longrightarrow> length (layers T') = length (layers T)"
  by (auto simp: resume_def observe_def split: frame.splits option.splits http_result.splits layer.splits if_splits)

lemma advance_rank:
  assumes "advance N n th T = Some (th', T')" "waits_inside (length (layers T)) th"
  shows "rank (length (layers T)) th' < rank (length (layers T)) th \<and> waits_inside (length (layers T)) th'
     \<and> length (layers T') = length (layers T)"
proof (cases "th_pc th")
  case (Enter d)
  show ?thesis
  proof (cases "d < length (layers T)")
    case True
    with assms Enter show ?thesis
      by (cases "layers T ! d") (auto simp: enter_layer_def rank_def waits_inside_def split: prod.splits)
  next
    case False
    with assms Enter show ?thesis by (auto simp: Let_def rank_def waits_inside_def)
  qed
next
  case (Return r)
  with assms obtain fr frs r' where "th_frames th = fr # frs" "resume N n r fr (th_req th) T = (r', T')"
    "th' = th\<lparr> th_pc := Return r', th_frames := frs \<rparr>"
    by (auto split: list.splits prod.splits)
  with Return resume_layers show ?thesis by (auto simp: rank_def waits_inside_def)
qed (use assms in \<open>auto simp: rank_def waits_inside_def split: blocking.splits\<close>)

lemma sum_list_update_less:
  "i < length xs \<Longrightarrow> f x < f (xs ! i) \<Longrightarrow> sum_list (map f (xs[i := x])) < (sum_list (map f xs) :: nat)"
proof (induction xs arbitrary: i)
  case (Cons y xs)
  then show ?case by (cases i) auto
qed simp

lemma perform_all_rank:
  assumes "perform_all N acts S = Some S'" "list_all (waits_inside (length (layers (tr S)))) (threads S)"
  shows "moves acts + sum_list (map (rank (length (layers (tr S)))) (threads S'))
     \<le> sum_list (map (rank (length (layers (tr S)))) (threads S)) + (3 * length (layers (tr S)) + 2) * calls acts"
  using assms
proof (induction acts arbitrary: S)
  case Nil
  then show ?case by simp
next
  case (Cons act acts)
  let ?L = "length (layers (tr S))"
  from Cons.prems(1) obtain S1 where S1: "perform N act S = Some S1" "perform_all N acts S1 = Some S'"
    by (auto split: option.splits)
  show ?case
  proof (cases act)
    case (Call req)
    with S1 have "S1 = S\<lparr> threads := threads S @ [new_thread req] \<rparr>" by simp
    with Cons.IH [OF S1(2)] Cons.prems(2) Call show ?thesis
      by (simp add: new_thread_def waits_inside_def rank_def)
  next
    case (Move n i)
    with S1 obtain th T where i: "i < length (threads S)" and ad: "advance N n (threads S ! i) (tr S) = Some (th, T)"
      and eq: "S1 = S\<lparr> tr := T, threads := (threads S)[i := th] \<rparr>"
      by (auto split: if_splits option.splits)
    have step: "rank ?L th < rank ?L (threads S ! i)" "waits_inside ?L th" "length (layers T) = ?L"
      using advance_rank [OF ad] Cons.prems(2) i by (simp_all add: list_all_length)
    have "list_all (waits_inside ?L) ((threads S)[i := th])"
      using Cons.prems(2) step(2) i by (simp add: list_all_length nth_list_update)
    then have "moves acts + sum_list (map (rank ?L) (threads S'))
        \<le> sum_list (map (rank ?L) ((threads S)[i := th])) + (3 * ?L + 2) * calls acts"
      using Cons.IH [OF S1(2)] eq step(3) by simp
    with sum_list_update_less [OF i, of "rank ?L" th] step(1) Move show ?thesis by simp
  qed
qed



end
