(* ===== verification/Pull_Secrets.thy ===== *)
theory Pull_Secrets
  imports Reconciler
begin

section \<open>The pull-secret keychain (\<^verbatim>\<open>internal/clusterexporter/keychain.go\<close>)\<close>

text \<open>
  The keychain whose inner keychain the pull-secret controller rebuilds whenever a watched Secret
  changes. The cached client, \<open>k8schain.NewFromPullSecrets\<close> and the inner keychain's own \<open>Resolve\<close> are
  the parameter \<open>secret_env\<close>; a moment (a natural number) tells two calls apart. The atomic pointer is
  the field \<open>inner\<close>; \<open>None\<close> is a nil keychain, on which \<open>Resolve\<close> panics.
\<close>

record ('s, 'k, 'a) secret_env =
  Get_Secret :: "nat \<Rightarrow> NamespacedName \<Rightarrow> 's outcome"
  NewFromPullSecrets :: "nat \<Rightarrow> 's list \<Rightarrow> 'k outcome"
  inner_Resolve :: "nat \<Rightarrow> 'k \<Rightarrow> string \<Rightarrow> 'a outcome"

record 'k pullSecretKeychain =
  inner :: "'k option"
  moment :: nat

record pullSecretReconciler =
  ps_namespace :: string
  ps_names :: "string list"

text \<open>The error of \<open>NewFromPullSecrets(ctx, nil)\<close> is dropped; what comes with it is nil.\<close>

definition newPullSecretKeychain :: "('s, 'k, 'a) secret_env \<Rightarrow> 'k pullSecretKeychain outcome" where
  "newPullSecretKeychain E =
     (case NewFromPullSecrets E 0 [] of
        Ok k \<Rightarrow> Ok \<lparr> inner = Some k, moment = 1 \<rparr>
      | Err _ \<Rightarrow> Ok \<lparr> inner = None, moment = 1 \<rparr>
      | Panic \<Rightarrow> Panic)"

definition Resolve :: "('s, 'k, 'a) secret_env \<Rightarrow> string \<Rightarrow> 'k pullSecretKeychain \<Rightarrow> 'a outcome \<times> 'k pullSecretKeychain" where
  "Resolve E target pk =
     (case inner pk of
        None \<Rightarrow> (Panic, pk)
      | Some k \<Rightarrow> (inner_Resolve E (moment pk) k target, pk\<lparr> moment := Suc (moment pk) \<rparr>))"

definition IsNotFound :: "error \<Rightarrow> bool" where
  "IsNotFound e = error_is NotFound e"

text \<open>The loop over the names: a missing Secret is skipped, any other error ends it.\<close>

fun gather_secrets ::
  "('s, 'k, 'a) secret_env \<Rightarrow> string \<Rightarrow> string list \<Rightarrow> 's list \<Rightarrow> nat \<Rightarrow> 's list outcome \<times> nat" where
  "gather_secrets E ns [] secrets n = (Ok secrets, n)"
| "gather_secrets E ns (name # names) secrets n =
     (case Get_Secret E n (ns, name) of
        Ok s \<Rightarrow> gather_secrets E ns names (secrets @ [s]) (Suc n)
      | Err e \<Rightarrow> if IsNotFound e then gather_secrets E ns names secrets (Suc n) else (Err e, Suc n)
      | Panic \<Rightarrow> (Panic, Suc n))"

definition ReconcileSecrets ::
  "('s, 'k, 'a) secret_env \<Rightarrow> pullSecretReconciler \<Rightarrow> 'k pullSecretKeychain \<Rightarrow> ctrl_Result outcome \<times> 'k pullSecretKeychain" where
  "ReconcileSecrets E R pk =
     (case gather_secrets E (ps_namespace R) (ps_names R) [] (moment pk) of
        (Err e, n) \<Rightarrow> (Err e, pk\<lparr> moment := n \<rparr>)
      | (Panic, n) \<Rightarrow> (Panic, pk\<lparr> moment := n \<rparr>)
      | (Ok secrets, n) \<Rightarrow>
          (case NewFromPullSecrets E n secrets of
             Err e \<Rightarrow> (Err e, pk\<lparr> moment := Suc n \<rparr>)
           | Panic \<Rightarrow> (Panic, pk\<lparr> moment := Suc n \<rparr>)
           | Ok kc \<Rightarrow> (Ok \<lparr> RequeueAfter = 0 \<rparr>, pk\<lparr> inner := Some kc, moment := Suc n \<rparr>)))"

subsection \<open>What a rebuild reads\<close>

text \<open>The answers of the client, name by name, until one is a failure; and what the loop makes of them.\<close>

definition answers :: "('s, 'k, 'a) secret_env \<Rightarrow> string \<Rightarrow> string list \<Rightarrow> nat \<Rightarrow> 's outcome list" where
  "answers E ns names n = map (\<lambda>(i, name). Get_Secret E i (ns, name)) (enumerate n names)"

fun failed_read :: "'s outcome \<Rightarrow> bool" where
  "failed_read (Ok _) = False"
| "failed_read (Err e) = (\<not> IsNotFound e)"
| "failed_read Panic = True"

definition present :: "'s outcome list \<Rightarrow> 's list" where
  "present = List.map_filter (\<lambda>r. case r of Ok s \<Rightarrow> Some s | _ \<Rightarrow> None)"

lemma present_simps [simp]:
  "present [] = []" "present (Ok s # rs) = s # present rs" "present (Err e # rs) = present rs"
  "present (Panic # rs) = present rs"
  by (simp_all add: present_def List.map_filter_simps)

lemma gather_secrets_answers:
  "fst (gather_secrets E ns names secrets n) =
     (case find failed_read (answers E ns names n) of
        None \<Rightarrow> Ok (secrets @ present (answers E ns names n))
      | Some (Err e) \<Rightarrow> Err e
      | Some _ \<Rightarrow> Panic)"
proof (induction names arbitrary: secrets n)
  case Nil
  then show ?case by (simp add: answers_def)
next
  case (Cons name names)
  have rest: "answers E ns (name # names) n = Get_Secret E n (ns, name) # answers E ns names (Suc n)"
    by (simp add: answers_def)
  show ?case
    by (cases "Get_Secret E n (ns, name)") (auto simp: rest Cons.IH split: option.split outcome.split)
qed

lemma gather_secrets_moment:
  "find failed_read (answers E ns names n) = None \<Longrightarrow> snd (gather_secrets E ns names secrets n) = n + length names"
proof (induction names arbitrary: secrets n)
  case Nil
  then show ?case by simp
next
  case (Cons name names)
  then show ?case
    by (cases "Get_Secret E n (ns, name)") (auto simp: answers_def split: if_splits)
qed

lemma ReconcileSecrets_inner:
  "inner (snd (ReconcileSecrets E R pk)) = inner pk \<or> inner (snd (ReconcileSecrets E R pk)) \<noteq> None"
  by (auto simp: ReconcileSecrets_def split: prod.splits outcome.splits)

subsection \<open>Rebuilds and lookups in any order\<close>

datatype kc_op = Rebuild | Lookup string

fun kc_run ::
  "('s, 'k, 'a) secret_env \<Rightarrow> pullSecretReconciler \<Rightarrow> kc_op list \<Rightarrow> 'k pullSecretKeychain
     \<Rightarrow> 'a outcome list \<times> 'k pullSecretKeychain" where
  "kc_run E R [] pk = ([], pk)"
| "kc_run E R (Rebuild # ops) pk = kc_run E R ops (snd (ReconcileSecrets E R pk))"
| "kc_run E R (Lookup target # ops) pk =
     (let (r, pk') = Resolve E target pk; (rs, pk'') = kc_run E R ops pk' in (r # rs, pk''))"

fun targets :: "kc_op list \<Rightarrow> string list" where
  "targets [] = []"
| "targets (Rebuild # ops) = targets ops"
| "targets (Lookup t # ops) = t # targets ops"

lemma kc_run_resolves:
  assumes "inner pk = Some k" "\<And>pk. inner pk = Some k \<Longrightarrow> inner (snd (ReconcileSecrets E R pk)) = Some k"
  shows "\<exists>ms. length ms = length (targets ops)
     \<and> fst (kc_run E R ops pk) = map2 (\<lambda>m t. inner_Resolve E m k t) ms (targets ops)"
  using assms(1)
proof (induction ops arbitrary: pk)
  case Nil
  then show ?case by simp
next
  case (Cons op ops)
  show ?case
  proof (cases op)
    case Rebuild
    with Cons.IH [OF assms(2) [OF Cons.prems]] show ?thesis by simp
  next
    case (Lookup t)
    obtain ms where "length ms = length (targets ops)"
      "fst (kc_run E R ops (pk\<lparr> moment := Suc (moment pk) \<rparr>)) = map2 (\<lambda>m t. inner_Resolve E m k t) ms (targets ops)"
      using Cons.IH [of "pk\<lparr> moment := Suc (moment pk) \<rparr>"] Cons.prems by auto
    with Lookup Cons.prems show ?thesis
      by (intro exI [of _ "moment pk # ms"]) (auto simp: Resolve_def split: prod.split)
  qed
qed

lemma kc_run_never_nil:
  assumes "inner pk \<noteq> None" "\<And>m k t. inner_Resolve E m k t \<noteq> Panic"
  shows "Panic \<notin> set (fst (kc_run E R ops pk))"
  using assms(1)
proof (induction ops arbitrary: pk)
  case Nil
  then show ?case by simp
next
  case (Cons op ops)
  show ?case
  proof (cases op)
    case Rebuild
    with Cons.IH [of "snd (ReconcileSecrets E R pk)"] Cons.prems ReconcileSecrets_inner [of E R pk] show ?thesis
      by auto
  next
    case (Lookup t)
    with Cons.IH [of "pk\<lparr> moment := Suc (moment pk) \<rparr>"] Cons.prems assms(2) assms(2) [THEN not_sym] show ?thesis
      by (auto simp: Resolve_def split: prod.split)
  qed
qed

lemma rebuild_stable:
  assumes "\<And>m n x. Get_Secret E m x = Get_Secret E n x" "\<And>m n ss. NewFromPullSecrets E m ss = NewFromPullSecrets E n ss"
    and "ReconcileSecrets E R pk = (Ok res, pk')" "inner pk'' = inner pk'"
  shows "inner (snd (ReconcileSecrets E R pk'')) = inner pk'"
proof -
  have "answers E ns names m = answers E ns names n" for ns names m n
    by (induction names arbitrary: m n) (use assms(1) in \<open>auto simp: answers_def\<close>)
  then have "fst (gather_secrets E ns names ss m) = fst (gather_secrets E ns names ss n)" for ns names ss m n
    unfolding gather_secrets_answers by metis
  with assms show ?thesis
    unfolding ReconcileSecrets_def
    by (auto split: prod.splits outcome.splits) (metis fst_conv outcome.inject(1))+
qed


subsection \<open>Properties\<close>

definition example_secrets :: "(string, string list, string) secret_env" where
  "example_secrets =
     \<lparr> Get_Secret = (\<lambda>_ x. if snd x = ''gone'' then Err NotFound else if snd x = ''down'' then Err (External ''timeout'')
                         else Ok (snd x)),
       NewFromPullSecrets = (\<lambda>_ ss. Ok ss),
       inner_Resolve = (\<lambda>_ k t. if k = [] then Ok ''anonymous'' else Ok (hd k)) \<rparr>"

text \<open>C38. A rebuild uses exactly the named Secrets that exist, in the order of their names, all read anew; if one of
  them cannot be read for another reason than being absent, or the keychain cannot be built from them, the
  reconcile fails with that error and the old keychain stays.\<close>

theorem pull_secret_rebuild:
  assumes "answers E (ps_namespace R) (ps_names R) (moment pk) = rs"
  shows "(case find failed_read rs of
       Some (Err e) \<Rightarrow> fst (ReconcileSecrets E R pk) = Err e \<and> inner (snd (ReconcileSecrets E R pk)) = inner pk
     | Some _ \<Rightarrow> fst (ReconcileSecrets E R pk) = Panic \<and> inner (snd (ReconcileSecrets E R pk)) = inner pk
     | None \<Rightarrow>
         (case NewFromPullSecrets E (moment pk + length (ps_names R)) (present rs) of
            Ok k \<Rightarrow> fst (ReconcileSecrets E R pk) = Ok \<lparr> RequeueAfter = 0 \<rparr> \<and> inner (snd (ReconcileSecrets E R pk)) = Some k
          | Err e \<Rightarrow> fst (ReconcileSecrets E R pk) = Err e \<and> inner (snd (ReconcileSecrets E R pk)) = inner pk
          | Panic \<Rightarrow> fst (ReconcileSecrets E R pk) = Panic \<and> inner (snd (ReconcileSecrets E R pk)) = inner pk))"
proof -
  obtain g n where g: "gather_secrets E (ps_namespace R) (ps_names R) [] (moment pk) = (g, n)" by fastforce
  have fst: "g = (case find failed_read rs of
      None \<Rightarrow> Ok (present rs) | Some (Err e) \<Rightarrow> Err e | Some _ \<Rightarrow> Panic)"
    using gather_secrets_answers [of E "ps_namespace R" "ps_names R" "[]" "moment pk"] g assms
    by (cases "find failed_read rs") (auto split: outcome.splits)
  have n: "find failed_read rs = None \<Longrightarrow> n = moment pk + length (ps_names R)"
    using gather_secrets_moment [of E "ps_namespace R" "ps_names R" "moment pk" "[]"] g assms by simp
  have ok: "find failed_read rs \<noteq> Some (Ok s)" for s
    by (metis failed_read.simps(1) find_Some_iff)
  show ?thesis
  proof (cases "find failed_read rs")
    case None
    with fst n g show ?thesis by (simp add: ReconcileSecrets_def split: outcome.split)
  next
    case (Some r)
    with fst g ok show ?thesis by (cases r) (simp_all add: ReconcileSecrets_def)
  qed
qed

theorem pull_secret_rebuild_witness:
  "fst (ReconcileSecrets example_secrets \<lparr> ps_namespace = ''ns'', ps_names = [''a'', ''gone'', ''b''] \<rparr>
     \<lparr> inner = Some [], moment = 0 \<rparr>) = Ok \<lparr> RequeueAfter = 0 \<rparr>
   \<and> inner (snd (ReconcileSecrets example_secrets \<lparr> ps_namespace = ''ns'', ps_names = [''a'', ''gone'', ''b''] \<rparr>
     \<lparr> inner = Some [], moment = 0 \<rparr>)) = Some [''a'', ''b'']"
  using pull_secret_rebuild [of example_secrets "\<lparr> ps_namespace = ''ns'', ps_names = [''a'', ''gone'', ''b''] \<rparr>"
      "\<lparr> inner = Some [], moment = 0 \<rparr>" "[Ok ''a'', Err NotFound, Ok ''b'']"]
  by (simp add: answers_def example_secrets_def IsNotFound_def)

text \<open>C39. Once the Secrets have settled, one successful rebuild is enough: whatever rebuilds and lookups follow, every
  lookup is answered by the keychain of the Secrets that exist.\<close>

theorem keychain_consistent:
  assumes "\<And>m n x. Get_Secret E m x = Get_Secret E n x" "\<And>m n ss. NewFromPullSecrets E m ss = NewFromPullSecrets E n ss"
    and "ReconcileSecrets E R pk = (Ok res, pk')"
  shows "\<exists>k ms. NewFromPullSecrets E 0 (present (answers E (ps_namespace R) (ps_names R) 0)) = Ok k
     \<and> length ms = length (targets ops)
     \<and> fst (kc_run E R ops pk') = map2 (\<lambda>m t. inner_Resolve E m k t) ms (targets ops)"
proof -
  obtain n where g: "gather_secrets E (ps_namespace R) (ps_names R) [] (moment pk) =
      (Ok (present (answers E (ps_namespace R) (ps_names R) (moment pk))), n)"
    using assms(3) gather_secrets_answers [of E "ps_namespace R" "ps_names R" "[]" "moment pk"]
    by (auto simp: ReconcileSecrets_def split: prod.splits outcome.splits option.splits)
  then obtain k where k: "NewFromPullSecrets E n (present (answers E (ps_namespace R) (ps_names R) (moment pk))) = Ok k"
      "inner pk' = Some k"
    using assms(3) by (auto simp: ReconcileSecrets_def split: outcome.splits)
  have "answers E ns names m = answers E ns names 0" for ns names m
    using assms(1) by (auto simp: answers_def enumerate_eq_zip map2_map_map intro!: nth_equalityI)
  with k assms(2) have "NewFromPullSecrets E 0 (present (answers E (ps_namespace R) (ps_names R) 0)) = Ok k"
    by metis
  moreover have "inner (snd (ReconcileSecrets E R q)) = Some k" if "inner q = Some k" for q
    using rebuild_stable [OF assms, of q] that k(2) by simp
  ultimately show ?thesis using kc_run_resolves [OF k(2), where ops = ops] by blast
qed

theorem keychain_consistent_witness:
  "fst (kc_run example_secrets \<lparr> ps_namespace = ''ns'', ps_names = [''a''] \<rparr> [Lookup ''r.io'', Rebuild, Lookup ''r.io'']
     \<lparr> inner = Some [''a''], moment = 2 \<rparr>) = [Ok ''a'', Ok ''a'']"
proof -
  have "ReconcileSecrets example_secrets \<lparr> ps_namespace = ''ns'', ps_names = [''a''] \<rparr> \<lparr> inner = Some [], moment = 0 \<rparr> =
      (Ok \<lparr> RequeueAfter = 0 \<rparr>, \<lparr> inner = Some [''a''], moment = 2 \<rparr>)"
    by code_simp
  moreover have "Get_Secret example_secrets m x = Get_Secret example_secrets n x"
    "NewFromPullSecrets example_secrets m ss = NewFromPullSecrets example_secrets n ss" for m n x ss
    by (simp_all add: example_secrets_def)
  ultimately obtain k ms where
    "NewFromPullSecrets example_secrets 0 (present (answers example_secrets ''ns'' [''a''] 0)) = Ok k"
    and ms: "length ms = length (targets [Lookup ''r.io'', Rebuild, Lookup ''r.io''])"
      "fst (kc_run example_secrets \<lparr> ps_namespace = ''ns'', ps_names = [''a''] \<rparr>
        [Lookup ''r.io'', Rebuild, Lookup ''r.io''] \<lparr> inner = Some [''a''], moment = 2 \<rparr>)
      = map2 (\<lambda>m t. inner_Resolve example_secrets m k t) ms (targets [Lookup ''r.io'', Rebuild, Lookup ''r.io''])"
    using keychain_consistent [of example_secrets "\<lparr> ps_namespace = ''ns'', ps_names = [''a''] \<rparr>" "\<lparr> inner = Some [], moment = 0 \<rparr>"
        "\<lparr> RequeueAfter = 0 \<rparr>" "\<lparr> inner = Some [''a''], moment = 2 \<rparr>" "[Lookup ''r.io'', Rebuild, Lookup ''r.io'']"]
    by auto
  moreover have "NewFromPullSecrets example_secrets 0 (present (answers example_secrets ''ns'' [''a''] 0)) = Ok [''a'']"
    by code_simp
  ultimately have k: "k = [''a'']" by simp
  from ms(1) obtain m1 m2 where "ms = [m1, m2]" by (auto simp: length_Suc_conv)
  with ms(2) k show ?thesis by (simp add: example_secrets_def del: kc_run.simps)
qed

text \<open>Resolving never meets a nil keychain: the seed is built at the start, and a failed rebuild stores nothing.\<close>

theorem keychain_never_nil:
  assumes "newPullSecretKeychain E = Ok pk" "NewFromPullSecrets E 0 [] = Ok seed" "\<And>m k t. inner_Resolve E m k t \<noteq> Panic"
  shows "Panic \<notin> set (fst (kc_run E R ops pk))"
proof (rule kc_run_never_nil [OF _ assms(3)])
  show "inner pk \<noteq> None" using assms(1,2) by (auto simp: newPullSecretKeychain_def)
qed

theorem keychain_never_nil_witness:
  "Panic \<notin> set (fst (kc_run example_secrets \<lparr> ps_namespace = ''ns'', ps_names = [''a'', ''down''] \<rparr>
     [Lookup ''r.io'', Rebuild, Lookup ''r.io''] \<lparr> inner = Some [], moment = 1 \<rparr>))"
  by (rule keychain_never_nil [where seed = "[]"]) (simp_all add: newPullSecretKeychain_def example_secrets_def)

end
