(* ===== verification/Setup.thy ===== *)
theory Setup
  imports Cluster_Exporter Registry_Transport Pull_Secrets
begin

section \<open>Options and wiring (\<^verbatim>\<open>options.go\<close>, \<open>SetupControllers\<close> of \<^verbatim>\<open>setup.go\<close>)\<close>

text \<open>
  \<open>SetupControllers\<close> applies the functional options, discovers the resources to watch, and builds from
  them the shared cache and transport, one image controller per resource, the pull-secret controller
  and the collector. The manager, the metric registry and the Kubernetes clients are the parameter
  \<open>setup_env\<close>: \<open>Complete n\<close> is the error of the \<open>n\<close>th controller's registration, \<open>MustRegister\<close> and
  \<open>RegisterCollector\<close> give the registry after the call, or \<open>None\<close> when it refuses.
\<close>

subsection \<open>Options\<close>

record ('p, 'r) options =
  o_k8sKeychain :: bool
  o_cacheDuration :: duration
  o_platform :: "'p option"
  o_registryConcurrency :: int
  o_registryRPS :: float64
  o_registryTimeout :: duration
  o_metricsRegistry :: "'r option"
  o_annotationAllowlist :: "string list"
  o_labelAllowlist :: "string list"
  o_installNamespace :: string
  o_imagePullSecrets :: "string list"

datatype ('p, 'r) option_fn =
    WithCacheDuration duration
  | WithK8sKeychain bool
  | WithPlatform "'p option"
  | WithRegistryConcurrency int
  | WithRegistryRPS float64
  | WithRegistryTimeout duration
  | WithMetricsRegistry "'r option"
  | WithAnnotationAllowlist "string list"
  | WithLabelAllowlist "string list"
  | WithInstallNamespace string
  | WithImagePullSecrets "string list"

fun apply_option :: "('p, 'r) option_fn \<Rightarrow> ('p, 'r) options \<Rightarrow> ('p, 'r) options" where
  "apply_option (WithCacheDuration d) o1 = (if d \<le> 0 then o1 else o1\<lparr> o_cacheDuration := d \<rparr>)"
| "apply_option (WithK8sKeychain b) o1 = o1\<lparr> o_k8sKeychain := b \<rparr>"
| "apply_option (WithPlatform p) o1 = o1\<lparr> o_platform := p \<rparr>"
| "apply_option (WithRegistryConcurrency n) o1 = o1\<lparr> o_registryConcurrency := n \<rparr>"
| "apply_option (WithRegistryRPS r) o1 = o1\<lparr> o_registryRPS := r \<rparr>"
| "apply_option (WithRegistryTimeout d) o1 = o1\<lparr> o_registryTimeout := d \<rparr>"
| "apply_option (WithMetricsRegistry r) o1 = o1\<lparr> o_metricsRegistry := r \<rparr>"
| "apply_option (WithAnnotationAllowlist ks) o1 = o1\<lparr> o_annotationAllowlist := ks \<rparr>"
| "apply_option (WithLabelAllowlist ks) o1 = o1\<lparr> o_labelAllowlist := ks \<rparr>"
| "apply_option (WithInstallNamespace ns) o1 = o1\<lparr> o_installNamespace := ns \<rparr>"
| "apply_option (WithImagePullSecrets ns) o1 = o1\<lparr> o_imagePullSecrets := ns \<rparr>"

definition default_options :: "('p, 'r) options" where
  "default_options =
     \<lparr> o_k8sKeychain = False, o_cacheDuration = 3600000000000, o_platform = None,
       o_registryConcurrency = 0, o_registryRPS = Finite 0 0, o_registryTimeout = 0, o_metricsRegistry = None,
       o_annotationAllowlist = [], o_labelAllowlist = [], o_installNamespace = '''', o_imagePullSecrets = [] \<rparr>"

definition apply_options :: "('p, 'r) option_fn list \<Rightarrow> ('p, 'r) options" where
  "apply_options opts = foldl (\<lambda>o1 opt. apply_option opt o1) default_options opts"

subsection \<open>The manager\<close>

datatype 'p controller =
    ImageController watched_object "(cacheImpl, 'p) ContainerImageReconciler"
  | PullSecretController pullSecretReconciler

text \<open>What \<open>SetupControllers\<close> has set up when it returns; the one transport has the handle 0. \<open>registry\<close> is
  controller-runtime's own registry until an option names another one.\<close>

record ('p, 'r, 'l, 's, 'k) manager =
  controllers :: "'p controller list"
  registry :: 'r
  exporter :: "Exporter option"
  shared_cache :: "cacheImpl option"
  shared_transport :: "('l, 's) transport option"
  pull_keychain :: "'k pullSecretKeychain option"

record ('r, 'sec, 'k, 'a) setup_env =
  kubernetes_err :: "error option"
  disco :: discovery_env
  DefaultTransport :: nat
  MustRegister :: "string list \<Rightarrow> 'r \<Rightarrow> 'r option"
  RegisterCollector :: "Desc list \<Rightarrow> 'r \<Rightarrow> 'r option"
  Complete :: "nat \<Rightarrow> error option"
  secrets_of :: "('sec, 'k, 'a) secret_env"

text \<open>The predicate of the pull-secret controller.\<close>

definition pull_secret_pred :: "('p, 'r) options \<Rightarrow> string \<Rightarrow> string \<Rightarrow> bool" where
  "pull_secret_pred o1 ns name =
     (if ns \<noteq> o_installNamespace o1 then False else name \<in> set (o_imagePullSecrets o1))"

definition reconciler_for ::
  "('p, 'r) options \<Rightarrow> keychain option \<Rightarrow> watchedResource \<Rightarrow> (cacheImpl, 'p) ContainerImageReconciler" where
  "reconciler_for o1 static r =
     \<lparr> GroupVersionKind = groupVersionKind r,
       ContainerPaths = containerPaths r,
       ImagePullSecretPaths = imagePullSecretPaths r,
       ServiceAccountNamePaths = serviceAccountNamePaths r,
       Cache = Some cacheImpl_ops,
       CacheDuration = o_cacheDuration o1,
       Platform = o_platform o1,
       K8sKeychain = o_k8sKeychain o1,
       StaticKeychain = static,
       Transport = Some 0,
       Inflight = True,
       RegistryTimeout = o_registryTimeout o1 \<rparr>"

text \<open>One more controller, or the error of its registration.\<close>

definition add_controller ::
  "('r, 'sec, 'k, 'a) setup_env \<Rightarrow> string \<Rightarrow> 'p controller \<Rightarrow> ('p, 'r, 'l, 's, 'k) manager
     \<Rightarrow> unit outcome \<times> ('p, 'r, 'l, 's, 'k) manager" where
  "add_controller V msg ctl M =
     (case Complete V (length (controllers M)) of
        Some e \<Rightarrow> (Err (Errorf msg (Some e)), M)
      | None \<Rightarrow> (Ok (), M\<lparr> controllers := controllers M @ [ctl] \<rparr>))"

fun add_image_controllers ::
  "('r, 'sec, 'k, 'a) setup_env \<Rightarrow> ('p, 'r) options \<Rightarrow> keychain option \<Rightarrow> watchedResource list
     \<Rightarrow> ('p, 'r, 'l, 's, 'k) manager \<Rightarrow> unit outcome \<times> ('p, 'r, 'l, 's, 'k) manager" where
  "add_image_controllers V o1 static [] M = (Ok (), M)"
| "add_image_controllers V o1 static (r # rs) M =
     (case add_controller V ''unable to create controller'' (ImageController (wr_object r) (reconciler_for o1 static r)) M of
        (Ok _, M') \<Rightarrow> add_image_controllers V o1 static rs M'
      | (Err e, M') \<Rightarrow> (Err e, M')
      | (Panic, M') \<Rightarrow> (Panic, M'))"

text \<open>The pull-secret part: nothing without names; with names, the keychain and its controller.\<close>

definition setup_pull_secrets ::
  "('r, 'sec, 'k, 'a) setup_env \<Rightarrow> ('p, 'r) options \<Rightarrow> ('p, 'r, 'l, 's, 'k) manager
     \<Rightarrow> keychain option outcome \<times> ('p, 'r, 'l, 's, 'k) manager" where
  "setup_pull_secrets V o1 M =
     (if length (o_imagePullSecrets o1) > 0 then
        if o_installNamespace o1 = '''' then (Err (External ''WithImagePullSecrets requires WithInstallNamespace''), M)
        else
          (case newPullSecretKeychain (secrets_of V) of
             Err e \<Rightarrow> (Err e, M) | Panic \<Rightarrow> (Panic, M)
           | Ok pk \<Rightarrow>
             (case add_controller V ''registering pull-secret reconciler''
                     (PullSecretController \<lparr> ps_namespace = o_installNamespace o1, ps_names = o_imagePullSecrets o1 \<rparr>)
                     (M\<lparr> pull_keychain := Some pk \<rparr>) of
                (Ok _, M') \<Rightarrow> (Ok (Some pullSecretKeychain), M')
              | (Err e, M') \<Rightarrow> (Err e, M')
              | (Panic, M') \<Rightarrow> (Panic, M')))
      else (Ok None, M))"

definition SetupControllers ::
  "('r, 'sec, 'k, 'a) setup_env \<Rightarrow> ('p, 'r) option_fn list \<Rightarrow> ('p, 'r, 'l, 's, 'k) manager
     \<Rightarrow> unit outcome \<times> ('p, 'r, 'l, 's, 'k) manager" where
  "SetupControllers V opts M =
     (let o1 = apply_options opts in
      case kubernetes_err V of
        Some e \<Rightarrow> (Err e, M)
      | None \<Rightarrow>
        (case wrap ''discovering additional resources'' (discoverAdditionalResources (disco V)) of
           Err e \<Rightarrow> (Err e, M) | Panic \<Rightarrow> (Panic, M)
         | Ok additional \<Rightarrow>
           (let allResources = builtinResources @ additional;
                reg = (case o_metricsRegistry o1 of None \<Rightarrow> registry M | Some g \<Rightarrow> g)
            in case newRegistryTransport (MustRegister V) (DefaultTransport V) None (o_registryConcurrency o1)
                      (o_registryRPS o1) (Some reg) of
                 Err e \<Rightarrow> (Err e, M) | Panic \<Rightarrow> (Panic, M)
               | Ok (transport, reg') \<Rightarrow>
                 (case setup_pull_secrets V o1
                         (M\<lparr> shared_cache := Some NewContainerImageCache, shared_transport := Some transport,
                             registry := the reg' \<rparr>) of
                    (Err e, M1) \<Rightarrow> (Err e, M1) | (Panic, M1) \<Rightarrow> (Panic, M1)
                  | (Ok static, M1) \<Rightarrow>
                    (case add_image_controllers V o1 static allResources M1 of
                       (Err e, M2) \<Rightarrow> (Err e, M2) | (Panic, M2) \<Rightarrow> (Panic, M2)
                     | (Ok _, M2) \<Rightarrow>
                         (Ok (),
                          (case RegisterCollector V Describe (registry M2) of
                             None \<Rightarrow> M2
                           | Some reg2 \<Rightarrow>
                               M2\<lparr> registry := reg2,
                                   exporter := Some \<lparr> Exp_Resources = allResources, Exp_CacheDuration = o_cacheDuration o1,
                                                     AnnotationAllowlist = o_annotationAllowlist o1,
                                                     LabelAllowlist = o_labelAllowlist o1 \<rparr> \<rparr>)))))))"


subsection \<open>Lemmas\<close>

lemma add_controller_Ok:
  "add_controller V msg ctl M = (Ok u, M') \<Longrightarrow> M' = M\<lparr> controllers := controllers M @ [ctl] \<rparr>"
  by (auto simp: add_controller_def split: option.splits)

lemma add_image_controllers_Ok:
  "add_image_controllers V o1 static rs M = (Ok u, M') \<Longrightarrow>
     M' = M\<lparr> controllers := controllers M
       @ map (\<lambda>r. ImageController (wr_object r) (reconciler_for o1 static r)) rs \<rparr>"
proof (induction rs arbitrary: M)
  case Nil
  then show ?case by simp
next
  case (Cons r rs)
  then obtain x M1 where
    "add_controller V ''unable to create controller'' (ImageController (wr_object r) (reconciler_for o1 static r)) M = (Ok x, M1)"
    and rest: "add_image_controllers V o1 static rs M1 = (Ok u, M')"
    by (auto split: prod.splits outcome.splits)
  then show ?case using Cons.IH [OF rest] add_controller_Ok by fastforce
qed

definition pull_controllers :: "('p, 'r) options \<Rightarrow> 'p controller list" where
  "pull_controllers o1 =
     (if o_imagePullSecrets o1 = [] then []
      else [PullSecretController \<lparr> ps_namespace = o_installNamespace o1, ps_names = o_imagePullSecrets o1 \<rparr>])"

definition static_keychain :: "('p, 'r) options \<Rightarrow> keychain option" where
  "static_keychain o1 = (if o_imagePullSecrets o1 = [] then None else Some pullSecretKeychain)"

lemma setup_pull_secrets_Ok:
  "setup_pull_secrets V o1 M = (Ok static, M') \<Longrightarrow>
     static = static_keychain o1 \<and> controllers M' = controllers M @ pull_controllers o1
     \<and> exporter M' = exporter M \<and> shared_cache M' = shared_cache M \<and> shared_transport M' = shared_transport M
     \<and> registry M' = registry M"
  by (auto simp: setup_pull_secrets_def static_keychain_def pull_controllers_def split: if_splits outcome.splits prod.splits
      dest!: add_controller_Ok)

lemma SetupControllers_Ok:
  assumes "SetupControllers V opts M = (Ok u, M')"
  obtains additional where "discoverAdditionalResources (disco V) = Ok additional"
    "controllers M' = controllers M @ pull_controllers (apply_options opts)
       @ map (\<lambda>r. ImageController (wr_object r) (reconciler_for (apply_options opts) (static_keychain (apply_options opts)) r))
           (builtinResources @ additional)"
    "shared_cache M' = Some NewContainerImageCache"
    "exporter M' = exporter M \<or> exporter M' = Some
       \<lparr> Exp_Resources = builtinResources @ additional, Exp_CacheDuration = o_cacheDuration (apply_options opts),
         AnnotationAllowlist = o_annotationAllowlist (apply_options opts),
         LabelAllowlist = o_labelAllowlist (apply_options opts) \<rparr>"
  using assms
  unfolding SetupControllers_def Let_def
  by (auto split: option.splits outcome.splits prod.splits
      dest!: add_image_controllers_Ok setup_pull_secrets_Ok)

lemma SetupControllers_transport:
  assumes "SetupControllers V opts M = (Ok u, M')"
  shows "\<exists>T g g'. shared_transport M' = Some T \<and> newRegistryTransport (MustRegister V) (DefaultTransport V) None
       (o_registryConcurrency (apply_options opts)) (o_registryRPS (apply_options opts)) (Some g) = Ok (T, g')"
  using assms
  unfolding SetupControllers_def Let_def
  by (auto split: option.splits outcome.splits prod.splits
      dest!: add_image_controllers_Ok setup_pull_secrets_Ok) blast+

text \<open>The image reconcilers among the controllers.\<close>

definition reconcilers :: "('p, 'r, 'l, 's, 'k) manager \<Rightarrow> (cacheImpl, 'p) ContainerImageReconciler list" where
  "reconcilers M = List.map_filter (\<lambda>c. case c of ImageController _ R \<Rightarrow> Some R | _ \<Rightarrow> None) (controllers M)"

lemma reconcilers_append:
  "List.map_filter (\<lambda>c. case c of ImageController _ R \<Rightarrow> Some R | _ \<Rightarrow> None)
     (cs @ map (\<lambda>r. ImageController (wr_object r) (f r)) rs) =
   List.map_filter (\<lambda>c. case c of ImageController _ R \<Rightarrow> Some R | _ \<Rightarrow> None) cs @ map f rs"
  by (induction cs) (auto simp: List.map_filter_def comp_def)

lemma reconcilers_of_setup:
  assumes "controllers M' = pull_controllers o1 @ map (\<lambda>r. ImageController (wr_object r) (reconciler_for o1 static r)) rs"
  shows "reconcilers M' = map (reconciler_for o1 static) rs"
  by (simp add: reconcilers_def assms reconcilers_append) (simp add: pull_controllers_def List.map_filter_simps)


subsection \<open>Properties\<close>

definition example_setup :: "(unit, string, string list, string) setup_env" where
  "example_setup =
     \<lparr> kubernetes_err = None, disco = example_discovery, DefaultTransport = 0, MustRegister = (\<lambda>_. Some),
       RegisterCollector = (\<lambda>_. Some), Complete = (\<lambda>_. None), secrets_of = example_secrets \<rparr>"

definition empty_manager :: "(nat, unit, unit, int \<times> int, string list) manager" where
  "empty_manager =
     \<lparr> controllers = [], registry = (), exporter = None, shared_cache = None, shared_transport = None,
       pull_keychain = None \<rparr>"

definition example_options :: "(nat, unit) option_fn list" where
  "example_options =
     [WithCacheDuration 60, WithRegistryConcurrency 10, WithInstallNamespace ''cie'', WithImagePullSecrets [''creds'']]"

lemma example_setup_runs: "is_Ok (fst (SetupControllers example_setup example_options empty_manager))"
  by code_simp


definition example_manager :: "(nat, unit, unit, int \<times> int, string list) manager" where
  "example_manager = snd (SetupControllers example_setup example_options empty_manager)"

lemma example_manager: "SetupControllers example_setup example_options empty_manager = (Ok (), example_manager)"
  using example_setup_runs by (cases "SetupControllers example_setup example_options empty_manager")
    (auto simp: example_manager_def is_Ok_iff)



lemma map_filter_append: "List.map_filter f (xs @ ys) = List.map_filter f xs @ List.map_filter f ys"
  by (simp add: List.map_filter_def)

definition asked_duration :: "('p, 'r) option_fn \<Rightarrow> duration option" where
  "asked_duration opt = (case opt of WithCacheDuration d \<Rightarrow> if 0 < d then Some d else None | _ \<Rightarrow> None)"

lemma apply_option_cacheDuration:
  "o_cacheDuration (apply_option opt o1) = (case asked_duration opt of None \<Rightarrow> o_cacheDuration o1 | Some d \<Rightarrow> d)"
  "asked_duration opt = Some d \<Longrightarrow> 0 < d"
  by (cases opt; auto simp: asked_duration_def split: if_splits)+

text \<open>The last positive cache duration wins; without one it is an hour. So no reconciler ever has a duration that is
  not positive, whatever the flags say.\<close>

theorem cache_duration_option:
  "o_cacheDuration (apply_options opts) = last (3600000000000 # List.map_filter asked_duration opts)
   \<and> 0 < o_cacheDuration (apply_options opts)"
proof (induction opts rule: rev_induct)
  case Nil
  then show ?case by (simp add: apply_options_def default_options_def List.map_filter_simps)
next
  case (snoc opt opts)
  have "apply_options (opts @ [opt]) = apply_option opt (apply_options opts)" by (simp add: apply_options_def)
  with snoc apply_option_cacheDuration [of opt] show ?case
    by (cases "asked_duration opt") (auto simp: map_filter_append List.map_filter_simps)
qed

text \<open>Pull secrets without the namespace they live in are refused, and then no controller runs and no metric of
  the exporter is offered.\<close>

theorem pull_secrets_need_namespace:
  assumes "o_imagePullSecrets (apply_options opts) \<noteq> []" "o_installNamespace (apply_options opts) = ''''"
  shows "\<not> is_Ok (fst (SetupControllers V opts M))
     \<and> controllers (snd (SetupControllers V opts M)) = controllers M \<and> exporter (snd (SetupControllers V opts M)) = exporter M"
  using assms
  by (auto simp: SetupControllers_def setup_pull_secrets_def Let_def split: option.split outcome.split)

theorem pull_secrets_need_namespace_witness:
  "controllers (snd (SetupControllers example_setup [WithImagePullSecrets [''creds'']] empty_manager)) = []"
  using pull_secrets_need_namespace [of "[WithImagePullSecrets [''creds'']]" example_setup empty_manager]
  by (simp add: apply_options_def default_options_def empty_manager_def)

end
