(* ===== verification/Label_Values.thy ===== *)
theory Label_Values
  imports Utf8
begin

section \<open>Bounded label values and log prefixes (\<^verbatim>\<open>internal/nodeexporter\<close>)\<close>

text \<open>
  \<open>truncateLabelValue\<close> of \<^verbatim>\<open>exporter.go\<close> caps the labels of an image, which its builder controls,
  and \<open>truncateForLog\<close> of \<^verbatim>\<open>cri.go\<close> makes a runtime's reply printable for an error message. Strings
  are byte strings; \<open>unicode.IsPrint\<close> is exact on ASCII and a parameter beyond it.
\<close>

subsection \<open>\<open>truncateLabelValue\<close>\<close>

definition maxLabelValueBytes :: nat where
  "maxLabelValueBytes = 1024"

text \<open>The three bytes of the ellipsis U+2026.\<close>

definition marker :: string where
  "marker = [CHR 0xE2, CHR 0x80, CHR 0xA6]"

text \<open>The loop \<open>for end > 0 && !utf8.RuneStart(v[end]) { end-- }\<close>.\<close>

fun walk_back :: "string \<Rightarrow> nat \<Rightarrow> nat" where
  "walk_back v 0 = 0"
| "walk_back v (Suc n) = (if \<not> RuneStart (v ! Suc n) then walk_back v n else Suc n)"

definition truncateLabelValue :: "string \<Rightarrow> string" where
  "truncateLabelValue v =
     (if length v \<le> maxLabelValueBytes then v
      else take (walk_back v (maxLabelValueBytes - length marker)) v @ marker)"

lemma length_marker [simp]: "length marker = 3"
  by (simp add: marker_def)

lemma valid_marker: "valid_utf8 marker"
  by code_simp

lemma walk_back_le: "walk_back v n \<le> n"
  by (induction n) auto

lemma walk_back_stop: "walk_back v n \<noteq> 0 \<Longrightarrow> RuneStart (v ! walk_back v n)"
  by (induction n) (auto split: if_splits)

lemma walk_back_ge: "j \<le> n \<Longrightarrow> RuneStart (v ! j) \<Longrightarrow> j \<le> walk_back v n"
  by (induction n) (auto simp: le_Suc_eq)

lemma truncateLabelValue_length: "length (truncateLabelValue v) \<le> maxLabelValueBytes"
  using walk_back_le [of v "maxLabelValueBytes - length marker"]
  by (auto simp: truncateLabelValue_def maxLabelValueBytes_def)

lemma truncateLabelValue_valid:
  assumes "valid_utf8 v"
  shows "valid_utf8 (truncateLabelValue v)"
proof (cases "length v \<le> maxLabelValueBytes")
  case True
  with assms show ?thesis by (simp add: truncateLabelValue_def)
next
  case False
  let ?k = "walk_back v (maxLabelValueBytes - length marker)"
  have k: "?k < length v" using False walk_back_le [of v "maxLabelValueBytes - length marker"] by simp
  have "valid_utf8 (take ?k v)"
    using valid_utf8_take [OF assms k] walk_back_stop [of v "maxLabelValueBytes - length marker"]
    by (cases "?k = 0") auto
  with False show ?thesis
    by (simp add: truncateLabelValue_def valid_utf8_append valid_marker)
qed

text \<open>At most three bytes are lost to the rune boundary.\<close>

lemma truncateLabelValue_keeps:
  assumes "valid_utf8 v" "maxLabelValueBytes < length v"
  shows "\<exists>k. truncateLabelValue v = take k v @ marker \<and> 1018 \<le> k \<and> k \<le> 1021"
proof -
  obtain rs where rs: "list_all is_rune rs" "v = concat rs" using assms(1) valid_utf8_runes by blast
  have "(1021 :: nat) < length v" using assms(2) by (simp add: maxLabelValueBytes_def)
  then obtain j where "j \<le> 1021" "1021 \<le> j + 3" "RuneStart (v ! j)"
    using rune_start_near [OF rs(1), of 1021] rs(2) by blast
  then have "1018 \<le> walk_back v 1021" "walk_back v 1021 \<le> 1021"
    using walk_back_ge [of j 1021 v] walk_back_le [of v 1021] by auto
  with assms(2) show ?thesis
    by (intro exI [of _ "walk_back v 1021"]) (simp add: truncateLabelValue_def maxLabelValueBytes_def)
qed

subsection \<open>\<open>truncateForLog\<close>\<close>

text \<open>The replacement character U+FFFD, which an invalid byte of a Go string decodes to.\<close>

definition RuneError :: string where
  "RuneError = [CHR 0xEF, CHR 0xBF, CHR 0xBD]"

definition IsPrint :: "(string \<Rightarrow> bool) \<Rightarrow> string \<Rightarrow> bool" where
  "IsPrint wide r = (case r of [c] \<Rightarrow> 32 \<le> byte c \<and> byte c < 127 | _ \<Rightarrow> wide r)"

text \<open>\<open>strings.Map\<close> with the closure of the code: rune by rune, an invalid byte being one rune.\<close>

function map_print :: "(string \<Rightarrow> bool) \<Rightarrow> string \<Rightarrow> string" where
  "map_print wide [] = []"
| "map_print wide (c # cs) =
     (let w = rune_width (c # cs);
          r = (if w = 0 then RuneError else take w (c # cs));
          rest = drop (if w = 0 then 1 else w) (c # cs)
      in (if \<not> IsPrint wide r then ''.'' else r) @ map_print wide rest)"
  by pat_completeness auto
termination
  by (relation "measure (length \<circ> snd)") auto

definition truncateForLog :: "(string \<Rightarrow> bool) \<Rightarrow> string \<Rightarrow> nat \<Rightarrow> string" where
  "truncateForLog wide s bound = map_print wide (if length s > bound then take bound s else s)"

declare map_print.simps(2) [simp del] rune_width.simps(2) [simp del]

lemma valid_RuneError: "valid_utf8 RuneError"
  by code_simp

lemma valid_dot: "valid_utf8 ''.''"
  by code_simp

lemma valid_take_rune: "rune_width s \<noteq> 0 \<Longrightarrow> valid_utf8 (take (rune_width s) s)"
  using valid_utf8_rune [OF is_rune_take, of s "[]"] by simp

lemma map_print_valid: "valid_utf8 (map_print wide s)"
proof (induction wide s rule: map_print.induct)
  case (1 wide)
  then show ?case by simp
next
  case (2 wide c cs)
  show ?case
    unfolding map_print.simps(2) Let_def
    using 2 [OF refl refl refl]
    by (intro valid_utf8_append) (auto simp: valid_dot valid_RuneError valid_take_rune)
qed

lemma map_print_length: "length (map_print wide s) \<le> 3 * length s"
proof (induction wide s rule: map_print.induct)
  case (1 wide)
  then show ?case by simp
next
  case (2 wide c cs)
  let ?w = "rune_width (c # cs)"
  have w: "?w \<le> length (c # cs)" by (rule rune_width_le)
  show ?case
  proof (cases "?w = 0")
    case True
    with 2 [OF refl refl refl] show ?thesis
      by (auto simp: map_print.simps(2) Let_def RuneError_def)
  next
    case False
    with 2 [OF refl refl refl] w show ?thesis
      by (auto simp: map_print.simps(2) Let_def min_def)
  qed
qed

lemma truncateForLog_length: "length (truncateForLog wide s bound) \<le> 3 * bound"
proof -
  have "length (truncateForLog wide s bound) \<le> 3 * length (if length s > bound then take bound s else s)"
    unfolding truncateForLog_def by (rule map_print_length)
  also have "\<dots> \<le> 3 * bound" by simp
  finally show ?thesis .
qed

lemma map_print_ascii:
  "list_all (\<lambda>c. byte c < 128) s \<Longrightarrow>
     map_print wide s = map (\<lambda>c. if 32 \<le> byte c \<and> byte c < 127 then c else CHR ''.'') s"
  by (induction s) (auto simp: map_print.simps(2) rune_width.simps(2) IsPrint_def Let_def)

lemma map_print_invalid:
  "wide RuneError \<Longrightarrow> list_all cont s \<Longrightarrow> length (map_print wide s) = 3 * length s"
proof (induction s)
  case (Cons c cs)
  then have "rune_width (c # cs) = 0" by (simp add: cont_def rune_width.simps(2))
  with Cons show ?case by (simp add: map_print.simps(2) Let_def IsPrint_def RuneError_def)
qed simp

subsection \<open>Properties\<close>

text \<open>C30. A label value the node exporter sends is at most 1024 bytes long; a value that fits is sent as it
  is; and a longer one that is valid UTF-8 stays valid, keeping all but at most six of its first 1024 bytes
  before the ellipsis: Prometheus never rejects a label because it was cut.\<close>

theorem label_value_bounded:
  "length (truncateLabelValue v) \<le> 1024
   \<and> (length v \<le> 1024 \<longrightarrow> truncateLabelValue v = v)
   \<and> (valid_utf8 v \<longrightarrow> valid_utf8 (truncateLabelValue v))
   \<and> (valid_utf8 v \<and> 1024 < length v \<longrightarrow> (\<exists>k. truncateLabelValue v = take k v @ marker \<and> 1018 \<le> k \<and> k \<le> 1021))"
  using truncateLabelValue_length [of v] truncateLabelValue_valid [of v] truncateLabelValue_keeps [of v]
  by (auto simp: maxLabelValueBytes_def truncateLabelValue_def)

theorem label_value_bounded_witness:
  "\<exists>k. truncateLabelValue (replicate 2000 CHR ''a'') = take k (replicate 2000 CHR ''a'') @ marker \<and> 1018 \<le> k"
proof -
  have "valid_utf8 (replicate 2000 CHR ''a'')"
    by (rule valid_utf8_ascii) (simp add: list_all_iff byte_def)
  with label_value_bounded [of "replicate 2000 CHR ''a''"] show ?thesis by auto
qed

text \<open>The prefix of a runtime's reply that goes into an error message is always valid UTF-8 and free of
  control characters where it is ASCII, but the bound is on the bytes read, not on those written: a reply of
  invalid bytes triples in length, each becoming the three bytes of U+FFFD and not the dot the comment says.\<close>

theorem log_prefix:
  "valid_utf8 (truncateForLog wide s bound)
   \<and> length (truncateForLog wide s bound) \<le> 3 * bound
   \<and> (list_all (\<lambda>c. byte c < 128) s \<longrightarrow>
        truncateForLog wide s bound = map (\<lambda>c. if 32 \<le> byte c \<and> byte c < 127 then c else CHR ''.'') (take bound s))
   \<and> (wide RuneError \<and> list_all cont s \<and> length s = bound \<longrightarrow> length (truncateForLog wide s bound) = 3 * bound)"
proof (intro conjI impI)
  show "valid_utf8 (truncateForLog wide s bound)"
    unfolding truncateForLog_def by (rule map_print_valid)
  show "length (truncateForLog wide s bound) \<le> 3 * bound" by (rule truncateForLog_length)
  show "truncateForLog wide s bound = map (\<lambda>c. if 32 \<le> byte c \<and> byte c < 127 then c else CHR ''.'') (take bound s)"
    if "list_all (\<lambda>c. byte c < 128) s"
  proof -
    have "list_all (\<lambda>c. byte c < 128) (take bound s)"
      using that by (meson in_set_takeD list_all_iff)
    then show ?thesis using that by (auto simp: truncateForLog_def map_print_ascii)
  qed
  show "length (truncateForLog wide s bound) = 3 * bound" if "wide RuneError \<and> list_all cont s \<and> length s = bound"
    using that map_print_invalid by (auto simp: truncateForLog_def)
qed

theorem log_prefix_witness:
  "length (truncateForLog (\<lambda>_. True) (replicate 4 (CHR 0x80)) 4) = 12
   \<and> truncateForLog (\<lambda>_. True) [CHR 0x01, CHR ''a''] 9 = ''.a''"
  using log_prefix [of "\<lambda>_. True" "replicate 4 (CHR 0x80)" 4] log_prefix [of "\<lambda>_. True" "[CHR 0x01, CHR ''a'']" 9]
  by (simp add: cont_def byte_def list_all_iff)

end
