(* ===== verification/OS_Release.thy ===== *)
theory OS_Release
  imports Go_Base "HOL-Library.Sublist"
begin

section \<open>Parsing os-release (\<^verbatim>\<open>internal/nodeexporter/osrelease.go\<close>)\<close>

text \<open>
  \<open>ParseOSRelease\<close> reads the \<open>KEY=value\<close> lines of a container's os-release file. The reader is a
  byte string with the error a read ends in, if any. \<open>bufio.Scanner\<close>, \<open>strings.TrimSpace\<close>,
  \<open>strings.Cut\<close> and \<open>strings.HasPrefix\<close> of the standard library are modelled as far as the code
  uses them: lines end at a newline or at the end of the input, a carriage return before the newline
  is dropped, and a line of 65536 bytes or more fills the scanner's buffer, which is an error.
\<close>

subsection \<open>The scanner\<close>

definition MaxScanTokenSize :: nat where
  "MaxScanTokenSize = 65536"

definition dropCR :: "string \<Rightarrow> string" where
  "dropCR l = (if l \<noteq> [] \<and> last l = CHR 0x0D then butlast l else l)"

text \<open>The raw lines: what stands between newlines, and a last one that is not empty.\<close>

fun raw_lines :: "string \<Rightarrow> string \<Rightarrow> string list" where
  "raw_lines acc [] = (if acc = [] then [] else [acc])"
| "raw_lines acc (c # cs) = (if c = CHR 0x0A then acc # raw_lines [] cs else raw_lines (acc @ [c]) cs)"

subsection \<open>Trimming\<close>

text \<open>The UTF-8 encodings of the runes \<open>unicode.IsSpace\<close> accepts.\<close>

definition space_runes :: "string list" where
  "space_runes =
     [[CHR 0x09], [CHR 0x0A], [CHR 0x0B], [CHR 0x0C], [CHR 0x0D], [CHR 0x20],
      [CHR 0xC2, CHR 0x85], [CHR 0xC2, CHR 0xA0], [CHR 0xE1, CHR 0x9A, CHR 0x80],
      [CHR 0xE2, CHR 0x80, CHR 0x80], [CHR 0xE2, CHR 0x80, CHR 0x81], [CHR 0xE2, CHR 0x80, CHR 0x82],
      [CHR 0xE2, CHR 0x80, CHR 0x83], [CHR 0xE2, CHR 0x80, CHR 0x84], [CHR 0xE2, CHR 0x80, CHR 0x85],
      [CHR 0xE2, CHR 0x80, CHR 0x86], [CHR 0xE2, CHR 0x80, CHR 0x87], [CHR 0xE2, CHR 0x80, CHR 0x88],
      [CHR 0xE2, CHR 0x80, CHR 0x89], [CHR 0xE2, CHR 0x80, CHR 0x8A], [CHR 0xE2, CHR 0x80, CHR 0xA8],
      [CHR 0xE2, CHR 0x80, CHR 0xA9], [CHR 0xE2, CHR 0x80, CHR 0xAF], [CHR 0xE2, CHR 0x81, CHR 0x9F],
      [CHR 0xE3, CHR 0x80, CHR 0x80]]"

function strip :: "string list \<Rightarrow> string \<Rightarrow> string" where
  "strip ps s =
     (case find (\<lambda>p. p \<noteq> [] \<and> prefix p s) ps of
        None \<Rightarrow> s
      | Some p \<Rightarrow> strip ps (drop (length p) s))"
  by pat_completeness auto
termination
proof (relation "measure (length \<circ> snd)")
  fix ps s p
  assume "find (\<lambda>p. p \<noteq> [] \<and> prefix p s) ps = Some p"
  then have "p \<noteq> []" "prefix p s" by (auto simp: find_Some_iff)
  then have "0 < length p" "length p \<le> length s" "s \<noteq> []" by (auto dest: prefix_length_le)
  then show "((ps, drop (length p) s), (ps, s)) \<in> measure (length \<circ> snd)"
    by simp
qed simp

declare strip.simps [simp del]

definition TrimSpace :: "string \<Rightarrow> string" where
  "TrimSpace s = rev (strip (map rev space_runes) (rev (strip space_runes s)))"

lemma strip_none: "(\<And>p. p \<in> set ps \<Longrightarrow> p = [] \<or> \<not> prefix p s) \<Longrightarrow> strip ps s = s"
proof -
  assume "\<And>p. p \<in> set ps \<Longrightarrow> p = [] \<or> \<not> prefix p s"
  then have "find (\<lambda>p. p \<noteq> [] \<and> prefix p s) ps = None" by (auto simp: find_None_iff)
  then show ?thesis by (subst strip.simps) simp
qed

lemma strip_suffix: "suffix (strip ps s) s"
proof (induction ps s rule: strip.induct)
  case (1 ps s)
  show ?case
  proof (cases "find (\<lambda>p. p \<noteq> [] \<and> prefix p s) ps")
    case None
    then show ?thesis by (subst strip.simps) simp
  next
    case (Some p)
    with 1 have "suffix (strip ps (drop (length p) s)) s"
      using suffix_order.trans suffix_drop by blast
    with Some show ?thesis by (subst strip.simps) simp
  qed
qed

subsection \<open>Cutting and quotes\<close>

fun cut_at :: "char \<Rightarrow> string \<Rightarrow> (string \<times> string) option" where
  "cut_at sep [] = None"
| "cut_at sep (c # cs) =
     (if c = sep then Some ([], cs)
      else case cut_at sep cs of None \<Rightarrow> None | Some (before, after) \<Rightarrow> Some (c # before, after))"

definition unquote :: "string \<Rightarrow> string" where
  "unquote v =
     (if length v \<ge> 2 \<and> (v ! 0 = CHR 0x22 \<or> v ! 0 = CHR 0x27) \<and> v ! 0 = v ! (length v - 1)
      then take (length v - 2) (drop 1 v) else v)"

subsection \<open>\<open>ParseOSRelease\<close>\<close>

text \<open>One turn of the loop, on the scanner's text.\<close>

definition parse_line :: "string \<Rightarrow> (string \<rightharpoonup> string) \<Rightarrow> (string \<rightharpoonup> string)" where
  "parse_line text m =
     (let l = TrimSpace text in
      if l = '''' \<or> prefix ''#'' l then m
      else case cut_at (CHR ''='') l of
             None \<Rightarrow> m
           | Some (k, v) \<Rightarrow> m(k \<mapsto> unquote v))"

fun parse_lines :: "string list \<Rightarrow> error option \<Rightarrow> (string \<rightharpoonup> string) \<Rightarrow> (string \<rightharpoonup> string) outcome" where
  "parse_lines [] read_err m = (case read_err of None \<Rightarrow> Ok m | Some e \<Rightarrow> Err e)"
| "parse_lines (l # ls) read_err m =
     (if length l \<ge> MaxScanTokenSize then Err ErrTooLong
      else parse_lines ls read_err (parse_line (dropCR l) m))"

type_synonym reader = "string \<times> error option"

definition ParseOSRelease :: "reader \<Rightarrow> (string \<rightharpoonup> string) outcome" where
  "ParseOSRelease r = parse_lines (raw_lines [] (fst r)) (snd r) Map.empty"


subsection \<open>Lemmas\<close>

lemma raw_lines_newline:
  "CHR 0x0A \<notin> set l \<Longrightarrow> raw_lines acc (l @ CHR 0x0A # cs) = (acc @ l) # raw_lines [] cs"
  by (induction l arbitrary: acc) auto

lemma raw_lines_no_newline: "CHR 0x0A \<notin> set acc \<Longrightarrow> l \<in> set (raw_lines acc s) \<Longrightarrow> CHR 0x0A \<notin> set l"
  by (induction acc s rule: raw_lines.induct) (auto split: if_splits)

text \<open>The lines are the whole input: joined by newlines they give it back, up to a final newline.\<close>

lemma raw_lines_join:
  "concat (map (\<lambda>l. l @ [CHR 0x0A]) (raw_lines acc s)) = acc @ s
   \<or> concat (map (\<lambda>l. l @ [CHR 0x0A]) (raw_lines acc s)) = acc @ s @ [CHR 0x0A]"
proof (induction acc s rule: raw_lines.induct)
  case (2 acc c cs)
  then show ?case by (cases "c = CHR 0x0A") auto
qed auto

text \<open>A character that no white space starts or ends with.\<close>

definition plain :: "char \<Rightarrow> bool" where
  "plain c \<longleftrightarrow> 33 \<le> (of_char c :: nat) \<and> (of_char c :: nat) < 127"

lemma space_runes_edges: "p \<in> set space_runes \<Longrightarrow> p \<noteq> [] \<and> \<not> plain (hd p) \<and> \<not> plain (last p)"
  by (auto simp: space_runes_def plain_def)

lemma strip_plain:
  assumes "s = [] \<or> plain (hd s)" "\<And>p. p \<in> set ps \<Longrightarrow> p \<noteq> [] \<and> \<not> plain (hd p)"
  shows "strip ps s = s"
proof (rule strip_none)
  fix p assume p: "p \<in> set ps"
  show "p = [] \<or> \<not> prefix p s"
  proof (rule ccontr)
    assume "\<not> (p = [] \<or> \<not> prefix p s)"
    then have "p \<noteq> []" "prefix p s" by simp_all
    then have "hd s = hd p" "s \<noteq> []" by (auto simp: prefix_def)
    with assms p show False by auto
  qed
qed

lemma TrimSpace_plain:
  assumes "s \<noteq> []" "plain (hd s)" "plain (last s)"
  shows "TrimSpace s = s"
proof -
  have "strip space_runes s = s"
    using assms space_runes_edges by (intro strip_plain) auto
  moreover have "strip (map rev space_runes) (rev s) = rev s"
    using assms space_runes_edges by (intro strip_plain) (auto simp: hd_rev)
  ultimately show ?thesis by (simp add: TrimSpace_def)
qed

lemma cut_at_append: "sep \<notin> set k \<Longrightarrow> cut_at sep (k @ sep # v) = Some (k, v)"
  by (induction k) auto

lemma unquote_quoted: "q = CHR 0x22 \<or> q = CHR 0x27 \<Longrightarrow> unquote (q # v @ [q]) = v"
  by (auto simp: unquote_def nth_append)

text \<open>What a line assigns.\<close>

definition assignment :: "string \<Rightarrow> (string \<times> string) option" where
  "assignment l =
     (let t = TrimSpace (dropCR l) in
      if t = '''' \<or> prefix ''#'' t then None
      else map_option (\<lambda>(k, v). (k, unquote v)) (cut_at (CHR ''='') t))"

lemma parse_line_assignment:
  "parse_line (dropCR l) m = (case assignment l of None \<Rightarrow> m | Some (k, v) \<Rightarrow> m(k \<mapsto> v))"
  by (auto simp: parse_line_def assignment_def Let_def split: option.split)

lemma parse_lines_ok:
  "list_all (\<lambda>l. length l < MaxScanTokenSize) ls \<Longrightarrow>
     parse_lines ls None m = Ok (m ++ map_of (rev (List.map_filter assignment ls)))"
proof (induction ls arbitrary: m)
  case Nil
  then show ?case by (simp add: List.map_filter_simps)
next
  case (Cons l ls)
  then show ?case
    by (cases "assignment l") (auto simp: parse_line_assignment List.map_filter_simps map_add_def
        fun_eq_iff split: option.split)
qed

lemma parse_lines_err:
  "is_Ok (parse_lines ls e m) \<longleftrightarrow> e = None \<and> list_all (\<lambda>l. length l < MaxScanTokenSize) ls"
  by (induction ls arbitrary: m) (auto split: option.split)

lemma parse_lines_error:
  "\<not> is_Ok (parse_lines ls e m) \<Longrightarrow>
     parse_lines ls e m = Err (if list_all (\<lambda>l. length l < MaxScanTokenSize) ls then the e else ErrTooLong)"
  by (induction ls arbitrary: m) (auto split: option.splits if_splits)

lemma ParseOSRelease_no_panic: "ParseOSRelease r \<noteq> Panic"
proof -
  have "parse_lines ls e m \<noteq> Panic" for ls e m
    by (induction ls arbitrary: m) (auto split: option.split)
  then show ?thesis by (simp add: ParseOSRelease_def)
qed

definition key_char :: "char \<Rightarrow> bool" where
  "key_char c \<longleftrightarrow> (let n = of_char c :: nat in (48 \<le> n \<and> n < 58) \<or> (65 \<le> n \<and> n < 91) \<or> n = 95 \<or> (97 \<le> n \<and> n < 123))"

definition render :: "(string \<times> string) list \<Rightarrow> string" where
  "render kvs = concat (map (\<lambda>(k, v). k @ ''='' @ [CHR 0x22] @ v @ [CHR 0x22, CHR 0x0A]) kvs)"

definition storable :: "string \<times> string \<Rightarrow> bool" where
  "storable kv \<longleftrightarrow> (case kv of (k, v) \<Rightarrow>
     k \<noteq> [] \<and> list_all key_char k \<and> CHR 0x0A \<notin> set v \<and> length k + length v + 3 < MaxScanTokenSize)"

lemma key_char_plain: "key_char c \<Longrightarrow> plain c \<and> c \<noteq> CHR ''='' \<and> c \<noteq> CHR ''#'' \<and> c \<noteq> CHR 0x0A"
  by (auto simp: key_char_def plain_def Let_def)

lemma raw_lines_render:
  "list_all storable kvs \<Longrightarrow>
     raw_lines [] (render kvs) = map (\<lambda>(k, v). k @ ''='' @ [CHR 0x22] @ v @ [CHR 0x22]) kvs"
proof (induction kvs)
  case Nil
  then show ?case by (simp add: render_def)
next
  case (Cons kv kvs)
  obtain k v where kv: "kv = (k, v)" by fastforce
  let ?l = "k @ ''='' @ [CHR 0x22] @ v @ [CHR 0x22]"
  have "CHR 0x0A \<notin> set k" using Cons.prems by (auto simp: kv storable_def list_all_iff dest: key_char_plain)
  then have "CHR 0x0A \<notin> set ?l" using Cons.prems by (simp add: kv storable_def)
  then have "raw_lines [] (?l @ CHR 0x0A # render kvs) = ([] @ ?l) # raw_lines [] (render kvs)"
    by (rule raw_lines_newline)
  with Cons show ?case by (simp add: kv render_def)
qed

lemma assignment_render:
  assumes "storable (k, v)"
  shows "assignment (k @ ''='' @ [CHR 0x22] @ v @ [CHR 0x22]) = Some (k, v)"
proof -
  let ?l = "k @ ''='' @ [CHR 0x22] @ v @ [CHR 0x22]"
  have k: "k \<noteq> []" "plain (hd k)" "CHR ''='' \<notin> set k" "hd k \<noteq> CHR ''#''"
    using assms by (cases k; auto simp: storable_def list_all_iff dest: key_char_plain)+
  have "plain (CHR 0x22)" by (simp add: plain_def)
  with k have "TrimSpace (dropCR ?l) = ?l"
    by (simp add: dropCR_def TrimSpace_plain)
  moreover have "\<not> prefix ''#'' ?l" using k by (cases k) auto
  moreover have "cut_at (CHR ''='') ?l = Some (k, CHR 0x22 # v @ [CHR 0x22])"
    using cut_at_append [OF k(3)] by simp
  ultimately show ?thesis
    by (simp add: assignment_def Let_def unquote_quoted)
qed

lemma ParseOSRelease_render:
  assumes "list_all storable kvs"
  shows "ParseOSRelease (render kvs, None) = Ok (map_of (rev kvs))"
proof -
  have "List.map_filter assignment (map (\<lambda>(k, v). k @ ''='' @ [CHR 0x22] @ v @ [CHR 0x22]) kvs) = kvs"
    using assms
  proof (induction kvs)
    case (Cons kv kvs)
    then show ?case
      using assignment_render [of "fst kv" "snd kv"] by (cases kv) (simp add: List.map_filter_simps)
  qed (simp add: List.map_filter_simps)
  moreover have "list_all (\<lambda>l. length l < MaxScanTokenSize)
      (map (\<lambda>(k, v). k @ ''='' @ [CHR 0x22] @ v @ [CHR 0x22]) kvs)"
    using assms by (induction kvs) (auto simp: storable_def)
  ultimately show ?thesis
    using parse_lines_ok by (simp add: ParseOSRelease_def raw_lines_render [OF assms])
qed

subsection \<open>Properties\<close>

text \<open>Parsing gives back what was written: from a file of quoted assignments \<open>ParseOSRelease\<close> returns
  exactly those, whatever quotes, spaces, hashes or equals signs the values hold, the last one winning where
  a key occurs twice.\<close>

theorem os_release_roundtrip:
  assumes "list_all storable kvs"
  shows "ParseOSRelease (render kvs, None) = Ok (map_of (rev kvs))"
  by (rule ParseOSRelease_render [OF assms])

theorem os_release_roundtrip_witness:
  "ParseOSRelease (render [(''ID'', ''wolfi''), (''NAME'', ''it's # = '')], None) =
     Ok [''NAME'' \<mapsto> ''it's # = '', ''ID'' \<mapsto> ''wolfi'']"
  using os_release_roundtrip [of "[(''ID'', ''wolfi''), (''NAME'', ''it's # = '')]"]
  by (simp add: storable_def key_char_def MaxScanTokenSize_def fun_upd_twist)

text \<open>C29. \<open>ParseOSRelease\<close> is total: it succeeds iff the read succeeds and no line has 65536 bytes or more, and
  then a key has the value of the last line that assigns it; a failed parse returns the scanner's error and
  nothing else, so a container with a broken file is never reported with half of its fields.\<close>

theorem os_release_parse:
  "ParseOSRelease (s, e) =
     (if \<exists>l \<in> set (raw_lines [] s). 65536 \<le> length l then Err ErrTooLong
      else case e of
             Some err \<Rightarrow> Err err
           | None \<Rightarrow> Ok (map_of (rev (List.map_filter assignment (raw_lines [] s)))))"
proof (cases "\<exists>l \<in> set (raw_lines [] s). 65536 \<le> length l")
  case True
  then have long: "\<not> list_all (\<lambda>l. length l < MaxScanTokenSize) (raw_lines [] s)"
    by (auto simp: list_all_iff MaxScanTokenSize_def not_less)
  then have "\<not> is_Ok (ParseOSRelease (s, e))"
    by (simp add: ParseOSRelease_def parse_lines_err)
  with True long parse_lines_error [of "raw_lines [] s" e] show ?thesis
    by (simp add: ParseOSRelease_def)
next
  case False
  then have short: "list_all (\<lambda>l. length l < MaxScanTokenSize) (raw_lines [] s)"
    by (auto simp: list_all_iff MaxScanTokenSize_def not_le)
  show ?thesis
  proof (cases e)
    case None
    with False short show ?thesis by (simp add: ParseOSRelease_def parse_lines_ok)
  next
    case (Some err)
    then have "\<not> is_Ok (parse_lines (raw_lines [] s) e Map.empty)" by (simp add: parse_lines_err)
    from parse_lines_error [OF this] False short Some show ?thesis by (simp add: ParseOSRelease_def)
  qed
qed

end
