(* ===== verification/CRI_Client.thy ===== *)
theory CRI_Client
  imports Go_Base "HOL-Library.AList"
begin

section \<open>The CRI client (\<^verbatim>\<open>internal/nodeexporter/cri.go\<close>)\<close>

text \<open>
  The client turns the answers of the container runtime into \<open>ContainerInfo\<close> and \<open>Image\<close> values. The
  runtime's four RPCs are the parameter \<open>cri_env\<close>, and so are the two parts of the standard library
  that read text: the JSON syntax (\<open>json_parse\<close>, which \<open>Unmarshal\<close> applies first) and the RFC 3339
  reader behind \<open>time.Time.UnmarshalJSON\<close>. How a document is stored into the code's structs is
  modelled here. RPCs in a loop carry their position, since the runtime may answer differently each time.
\<close>

subsection \<open>The runtime\<close>

datatype container_state = CONTAINER_CREATED | CONTAINER_RUNNING | CONTAINER_EXITED | CONTAINER_UNKNOWN

record runtime_image =
  ri_Image :: string
  ri_UserSpecifiedImage :: string

record runtime_container =
  ctr_Id :: string
  ctr_Labels :: "string \<rightharpoonup> string"
  ctr_Image :: "runtime_image option"
  ctr_ImageRef :: string

record image_response =
  resp_Image :: "string option"
  resp_Info :: "string \<rightharpoonup> string"

record cri_env =
  rt_ListContainers :: "container_state \<Rightarrow> runtime_container list outcome"
  rt_ContainerStatus :: "nat \<Rightarrow> string \<Rightarrow> (string \<rightharpoonup> string) outcome"
  im_ListImages :: "string list outcome"
  im_ImageStatus :: "nat \<Rightarrow> string \<Rightarrow> image_response outcome"
  json_parse :: "string \<Rightarrow> json option"
  time_UnmarshalJSON :: "json \<Rightarrow> time option"

subsection \<open>What the client returns\<close>

record ContainerInfo =
  ID :: string
  PID :: "int option"
  UserSpecifiedImage :: string
  ImageName :: string
  ImageRef :: string
  PodName :: string
  PodNamespace :: string
  ContainerName :: string

text \<open>An image; a nil map of labels is the empty list.\<close>

record CRIImage =
  ImageID :: string
  ImageLabels :: "(string \<times> string) list"
  ImageCreated :: "time option"

definition zero_Image :: CRIImage where
  "zero_Image = \<lparr> ImageID = '''', ImageLabels = [], ImageCreated = None \<rparr>"

text \<open>The client as its user, the exporter, sees it.\<close>

record cri_ops =
  op_ListRunningContainers :: "ContainerInfo list outcome"
  op_ListImages :: "CRIImage list outcome"
  op_ImageStatus :: "nat \<Rightarrow> string \<Rightarrow> CRIImage outcome"

subsection \<open>Storing JSON into the code's structs\<close>

text \<open>Field names are compared with case folded; U+017F and U+212A are the only other runes that fold
  to ASCII letters.\<close>

definition upper :: "char \<Rightarrow> char" where
  "upper c = (let n = of_char c :: nat in if 97 \<le> n \<and> n < 123 then char_of (n - 32) else c)"

fun foldName :: "string \<Rightarrow> string" where
  "foldName [] = []"
| "foldName (c # cs) =
     (if c = CHR 0xC5 \<and> cs \<noteq> [] \<and> hd cs = CHR 0xBF then CHR ''S'' # foldName (tl cs)
      else if c = CHR 0xE2 \<and> length cs \<ge> 2 \<and> cs ! 0 = CHR 0x84 \<and> cs ! 1 = CHR 0xAA
      then CHR ''K'' # foldName (drop 2 cs)
      else upper c # foldName cs)"

definition is_field :: "string \<Rightarrow> string \<Rightarrow> bool" where
  "is_field name key \<longleftrightarrow> foldName key = foldName name"

text \<open>An integer literal that fits an \<open>int\<close>; any other number is a type error.\<close>

fun digits_value :: "nat \<Rightarrow> string \<Rightarrow> nat option" where
  "digits_value n [] = Some n"
| "digits_value n (c # cs) =
     (let d = of_char c :: nat in if 48 \<le> d \<and> d < 58 then digits_value (10 * n + (d - 48)) cs else None)"

definition ParseInt :: "string \<Rightarrow> int option" where
  "ParseInt l =
     (let neg = (l \<noteq> [] \<and> hd l = CHR ''-''); ds = (if neg then tl l else l) in
      if ds = [] then None
      else case digits_value 0 ds of
             None \<Rightarrow> None
           | Some n \<Rightarrow>
               let i = (if neg then - int n else int n)
               in if - (2 ^ 63) \<le> i \<and> i \<le> max_int64 then Some i else None)"

text \<open>The struct with the field \<open>pid\<close>; \<open>None\<close> is an error of \<open>Unmarshal\<close>.\<close>

fun store_pid :: "json_obj \<Rightarrow> int option \<Rightarrow> int option option" where
  "store_pid [] p = Some p"
| "store_pid ((k, v) # kvs) p =
     (if \<not> is_field ''pid'' k then store_pid kvs p
      else case v of
             JNull \<Rightarrow> store_pid kvs None
           | JNum l \<Rightarrow> (case ParseInt l of None \<Rightarrow> None | Some i \<Rightarrow> store_pid kvs (Some i))
           | _ \<Rightarrow> None)"

definition unmarshal_pid :: "json option \<Rightarrow> int option option" where
  "unmarshal_pid doc =
     (case doc of
        Some (JObj kvs) \<Rightarrow> store_pid kvs None
      | Some JNull \<Rightarrow> Some None
      | _ \<Rightarrow> None)"

record ociImageConfig =
  oci_Created :: "time option"
  oci_Labels :: "(string \<times> string) list"

definition zero_oci :: ociImageConfig where
  "zero_oci = \<lparr> oci_Created = None, oci_Labels = [] \<rparr>"

fun store_label_entries :: "json_obj \<Rightarrow> (string \<times> string) list \<Rightarrow> (string \<times> string) list option" where
  "store_label_entries [] m = Some m"
| "store_label_entries ((k, v) # kvs) m =
     (case v of
        JStr s \<Rightarrow> store_label_entries kvs (AList.update k s m)
      | JNull \<Rightarrow> store_label_entries kvs (AList.update k '''' m)
      | _ \<Rightarrow> None)"

fun store_config :: "json_obj \<Rightarrow> ociImageConfig \<Rightarrow> ociImageConfig option" where
  "store_config [] cfg = Some cfg"
| "store_config ((k, v) # kvs) cfg =
     (if \<not> is_field ''Labels'' k then store_config kvs cfg
      else case v of
             JNull \<Rightarrow> store_config kvs (cfg\<lparr> oci_Labels := [] \<rparr>)
           | JObj es \<Rightarrow> (case store_label_entries es (oci_Labels cfg) of
                          None \<Rightarrow> None
                        | Some m \<Rightarrow> store_config kvs (cfg\<lparr> oci_Labels := m \<rparr>))
           | _ \<Rightarrow> None)"

fun store_oci :: "(json \<Rightarrow> time option) \<Rightarrow> json_obj \<Rightarrow> ociImageConfig \<Rightarrow> ociImageConfig option" where
  "store_oci parse [] cfg = Some cfg"
| "store_oci parse ((k, v) # kvs) cfg =
     (if is_field ''created'' k then
        (case v of
           JNull \<Rightarrow> store_oci parse kvs (cfg\<lparr> oci_Created := None \<rparr>)
         | _ \<Rightarrow> (case parse v of
                  None \<Rightarrow> None
                | Some t \<Rightarrow> store_oci parse kvs (cfg\<lparr> oci_Created := Some t \<rparr>)))
      else if is_field ''config'' k then
        (case v of
           JNull \<Rightarrow> store_oci parse kvs cfg
         | JObj es \<Rightarrow> (case store_config es cfg of None \<Rightarrow> None | Some cfg' \<Rightarrow> store_oci parse kvs cfg')
         | _ \<Rightarrow> None)
      else store_oci parse kvs cfg)"

fun store_ctd :: "(json \<Rightarrow> time option) \<Rightarrow> json_obj \<Rightarrow> ociImageConfig \<Rightarrow> ociImageConfig option" where
  "store_ctd parse [] cfg = Some cfg"
| "store_ctd parse ((k, v) # kvs) cfg =
     (if \<not> is_field ''imageSpec'' k then store_ctd parse kvs cfg
      else case v of
             JNull \<Rightarrow> store_ctd parse kvs cfg
           | JObj es \<Rightarrow> (case store_oci parse es cfg of None \<Rightarrow> None | Some cfg' \<Rightarrow> store_ctd parse kvs cfg')
           | _ \<Rightarrow> None)"

definition unmarshal_with :: "(json_obj \<Rightarrow> ociImageConfig \<Rightarrow> ociImageConfig option) \<Rightarrow> json option \<Rightarrow> ociImageConfig option" where
  "unmarshal_with store doc =
     (case doc of
        Some (JObj kvs) \<Rightarrow> store kvs zero_oci
      | Some JNull \<Rightarrow> Some zero_oci
      | _ \<Rightarrow> None)"

subsection \<open>The client\<close>

definition containerPID :: "cri_env \<Rightarrow> nat \<Rightarrow> string \<Rightarrow> int option outcome" where
  "containerPID E n containerId =
     (case wrap ''container status'' (rt_ContainerStatus E n containerId) of
        Err e \<Rightarrow> Err e | Panic \<Rightarrow> Panic
      | Ok info \<Rightarrow>
          (case info ''info'' of
             None \<Rightarrow> Ok None
           | Some raw \<Rightarrow>
               (case unmarshal_pid (json_parse E raw) of
                  None \<Rightarrow> Err (Errorf ''parsing info JSON'' (Some (External ''json'')))
                | Some p \<Rightarrow> Ok p)))"

definition labelPodName :: string where
  "labelPodName = ''io.kubernetes.pod.name''"

definition labelPodNamespace :: string where
  "labelPodNamespace = ''io.kubernetes.pod.namespace''"

definition labelContainerName :: string where
  "labelContainerName = ''io.kubernetes.container.name''"

definition pauseContainerName :: string where
  "pauseContainerName = ''POD''"

text \<open>Reading a missing key of a Go map gives the empty string.\<close>

definition key :: "(string \<rightharpoonup> string) \<Rightarrow> string \<Rightarrow> string" where
  "key m k = (case m k of None \<Rightarrow> '''' | Some v \<Rightarrow> v)"

fun running_containers :: "cri_env \<Rightarrow> nat \<Rightarrow> runtime_container list \<Rightarrow> ContainerInfo list outcome" where
  "running_containers E n [] = Ok []"
| "running_containers E n (ctr # ctrs) =
     (let podName = key (ctr_Labels ctr) labelPodName;
          podNamespace = key (ctr_Labels ctr) labelPodNamespace;
          containerName = key (ctr_Labels ctr) labelContainerName
      in if containerName = pauseContainerName \<or> podName = '''' \<or> podNamespace = ''''
         then running_containers E (Suc n) ctrs
         else
           let (userSpecifiedImage, image) =
                 (case ctr_Image ctr of None \<Rightarrow> ('''', '''') | Some i \<Rightarrow> (ri_UserSpecifiedImage i, ri_Image i))
           in case containerPID E n (ctr_Id ctr) of
                Panic \<Rightarrow> Panic
              | r \<Rightarrow>
                  (case running_containers E (Suc n) ctrs of
                     Ok rest \<Rightarrow>
                       Ok (\<lparr> ID = ctr_Id ctr, PID = (case r of Ok p \<Rightarrow> p | _ \<Rightarrow> None),
                             UserSpecifiedImage = userSpecifiedImage, ImageName = image, ImageRef = ctr_ImageRef ctr,
                             PodName = podName, PodNamespace = podNamespace, ContainerName = containerName \<rparr> # rest)
                   | e \<Rightarrow> e))"

definition ListRunningContainers :: "cri_env \<Rightarrow> ContainerInfo list outcome" where
  "ListRunningContainers E =
     (case wrap ''listing containers via CRI'' (rt_ListContainers E CONTAINER_RUNNING) of
        Err e \<Rightarrow> Err e | Panic \<Rightarrow> Panic
      | Ok ctrs \<Rightarrow> running_containers E 0 ctrs)"

record imageMetadata =
  meta_Labels :: "(string \<times> string) list"
  meta_Created :: "time option"

definition parseImageInfo :: "cri_env \<Rightarrow> (string \<rightharpoonup> string) \<Rightarrow> imageMetadata" where
  "parseImageInfo E verbose =
     (let zero = \<lparr> meta_Labels = [], meta_Created = None \<rparr> in
      case verbose ''info'' of
        None \<Rightarrow> zero
      | Some raw \<Rightarrow>
          if raw = '''' then zero
          else
            let out1 = (case unmarshal_with (store_ctd (time_UnmarshalJSON E)) (json_parse E raw) of
                          None \<Rightarrow> zero
                        | Some ctd \<Rightarrow> \<lparr> meta_Labels = (if length (oci_Labels ctd) > 0 then oci_Labels ctd else []),
                                        meta_Created = oci_Created ctd \<rparr>)
            in if meta_Created out1 = None \<or> meta_Labels out1 = []
               then (case unmarshal_with (store_oci (time_UnmarshalJSON E)) (json_parse E raw) of
                       None \<Rightarrow> out1
                     | Some generic \<Rightarrow>
                         \<lparr> meta_Labels = (if meta_Labels out1 = [] \<and> length (oci_Labels generic) > 0
                                          then oci_Labels generic else meta_Labels out1),
                           meta_Created = (if meta_Created out1 = None \<and> oci_Created generic \<noteq> None
                                           then oci_Created generic else meta_Created out1) \<rparr>)
               else out1)"

definition ImageStatus :: "cri_env \<Rightarrow> nat \<Rightarrow> string \<Rightarrow> CRIImage outcome" where
  "ImageStatus E n imageID =
     (if imageID = '''' then Ok zero_Image
      else case wrap ''image status'' (im_ImageStatus E n imageID) of
             Err e \<Rightarrow> Err e | Panic \<Rightarrow> Panic
           | Ok resp \<Rightarrow>
               (case resp_Image resp of
                  None \<Rightarrow> Ok zero_Image
                | Some imgId \<Rightarrow>
                    if imgId = '''' then Ok zero_Image
                    else let meta = parseImageInfo E (resp_Info resp)
                         in Ok \<lparr> ImageID = imgId, ImageLabels = meta_Labels meta, ImageCreated = meta_Created meta \<rparr>))"

fun enrich_images :: "cri_env \<Rightarrow> nat \<Rightarrow> string list \<Rightarrow> CRIImage list outcome" where
  "enrich_images E n [] = Ok []"
| "enrich_images E n (imgId # ids) =
     (case ImageStatus E n imgId of
        Panic \<Rightarrow> Panic
      | Err _ \<Rightarrow> enrich_images E (Suc n) ids
      | Ok enriched \<Rightarrow>
          if ImageID enriched = '''' then enrich_images E (Suc n) ids
          else case enrich_images E (Suc n) ids of
                 Ok rest \<Rightarrow> Ok (enriched # rest)
               | e \<Rightarrow> e)"

definition ListImages :: "cri_env \<Rightarrow> CRIImage list outcome" where
  "ListImages E =
     (case wrap ''listing images via CRI'' (im_ListImages E) of
        Err e \<Rightarrow> Err e | Panic \<Rightarrow> Panic
      | Ok ids \<Rightarrow> enrich_images E 0 ids)"

definition CRIClient :: "cri_env \<Rightarrow> cri_ops" where
  "CRIClient E =
     \<lparr> op_ListRunningContainers = ListRunningContainers E,
       op_ListImages = ListImages E,
       op_ImageStatus = ImageStatus E \<rparr>"


subsection \<open>Lemmas\<close>

definition label_map :: "(string \<times> string) list \<Rightarrow> bool" where
  "label_map m \<longleftrightarrow> distinct (map fst m)"

lemma store_label_entries_map: "store_label_entries kvs m = Some m' \<Longrightarrow> label_map m \<Longrightarrow> label_map m'"
proof (induction kvs arbitrary: m)
  case (Cons kv kvs)
  then show ?case
    by (cases kv) (auto simp: label_map_def distinct_update split: json.splits)
qed simp

lemma store_config_map:
  "store_config kvs cfg = Some cfg' \<Longrightarrow> label_map (oci_Labels cfg) \<Longrightarrow> label_map (oci_Labels cfg')"
proof (induction kvs arbitrary: cfg)
  case (Cons kv kvs)
  obtain k v where kv: "kv = (k, v)" by fastforce
  have nil: "label_map []" by (simp add: label_map_def)
  from Cons show ?case
    by (cases v) (auto simp: kv nil dest: store_label_entries_map split: if_splits option.splits)
qed simp

lemma store_oci_map:
  "store_oci parse kvs cfg = Some cfg' \<Longrightarrow> label_map (oci_Labels cfg) \<Longrightarrow> label_map (oci_Labels cfg')"
proof (induction kvs arbitrary: cfg)
  case (Cons kv kvs)
  obtain k v where kv: "kv = (k, v)" by fastforce
  from Cons show ?case
    by (cases v) (auto simp: kv dest: store_config_map split: if_splits option.splits)
qed simp

lemma store_ctd_map:
  "store_ctd parse kvs cfg = Some cfg' \<Longrightarrow> label_map (oci_Labels cfg) \<Longrightarrow> label_map (oci_Labels cfg')"
proof (induction kvs arbitrary: cfg)
  case (Cons kv kvs)
  obtain k v where kv: "kv = (k, v)" by fastforce
  from Cons show ?case
    by (cases v) (auto simp: kv dest: store_oci_map split: if_splits option.splits)
qed simp

lemma unmarshal_with_map:
  assumes "unmarshal_with store doc = Some cfg"
    and "\<And>kvs c c'. store kvs c = Some c' \<Longrightarrow> label_map (oci_Labels c) \<Longrightarrow> label_map (oci_Labels c')"
  shows "label_map (oci_Labels cfg)"
proof -
  have "label_map (oci_Labels zero_oci)" by (simp add: label_map_def zero_oci_def)
  with assms show ?thesis by (auto simp: unmarshal_with_def split: option.splits json.splits)
qed

text \<open>\<open>parseImageInfo\<close> in one equation: each field from the containerd shape, else from the other.\<close>

definition or_zero :: "ociImageConfig option \<Rightarrow> ociImageConfig" where
  "or_zero c = (case c of None \<Rightarrow> zero_oci | Some cfg \<Rightarrow> cfg)"

lemma parseImageInfo_eq:
  "parseImageInfo E verbose =
     (case verbose ''info'' of
        None \<Rightarrow> \<lparr> meta_Labels = [], meta_Created = None \<rparr>
      | Some raw \<Rightarrow>
          if raw = '''' then \<lparr> meta_Labels = [], meta_Created = None \<rparr>
          else let ctd = or_zero (unmarshal_with (store_ctd (time_UnmarshalJSON E)) (json_parse E raw));
                   oci = or_zero (unmarshal_with (store_oci (time_UnmarshalJSON E)) (json_parse E raw))
               in \<lparr> meta_Labels = (if oci_Labels ctd \<noteq> [] then oci_Labels ctd else oci_Labels oci),
                    meta_Created = (case oci_Created ctd of Some t \<Rightarrow> Some t | None \<Rightarrow> oci_Created oci) \<rparr>)"
  by (auto simp: parseImageInfo_def Let_def or_zero_def zero_oci_def split: option.split)

lemma parseImageInfo_map: "label_map (meta_Labels (parseImageInfo E verbose))"
proof -
  have z: "label_map (oci_Labels zero_oci)" "label_map []" by (simp_all add: label_map_def zero_oci_def)
  have "label_map (oci_Labels (or_zero (unmarshal_with (store_ctd p) doc)))"
    "label_map (oci_Labels (or_zero (unmarshal_with (store_oci p) doc)))" for p doc
    using unmarshal_with_map [of "store_ctd p" doc] unmarshal_with_map [of "store_oci p" doc] z
    by (auto simp: or_zero_def store_ctd_map store_oci_map split: option.split)
  with z show ?thesis by (simp add: parseImageInfo_eq Let_def split: option.split)
qed

lemma ImageStatus_cases:
  assumes "ImageStatus E n i = Ok img"
  shows "img = zero_Image \<or> (ImageID img \<noteq> '''' \<and> i \<noteq> '''')"
  using assms by (auto simp: ImageStatus_def Let_def split: if_splits outcome.splits option.splits)

lemma ImageStatus_map: "ImageStatus E n i = Ok img \<Longrightarrow> label_map (ImageLabels img)"
  using parseImageInfo_map
  by (auto simp: ImageStatus_def Let_def zero_Image_def label_map_def split: if_splits outcome.splits option.splits)

definition enriched :: "cri_env \<Rightarrow> nat \<times> string \<Rightarrow> CRIImage option" where
  "enriched E p =
     (case ImageStatus E (fst p) (snd p) of
        Ok img \<Rightarrow> if ImageID img = '''' then None else Some img
      | _ \<Rightarrow> None)"

lemma enrich_images_eq:
  "enrich_images E n ids =
     (if \<exists>p \<in> set (enumerate n ids). ImageStatus E (fst p) (snd p) = Panic then Panic
      else Ok (List.map_filter (enriched E) (enumerate n ids)))"
proof (induction ids arbitrary: n)
  case (Cons i ids)
  have "enriched E (n, i) = (case ImageStatus E n i of
      Ok img \<Rightarrow> if ImageID img = '''' then None else Some img | _ \<Rightarrow> None)"
    by (simp add: enriched_def)
  with Cons show ?case
    by (cases "ImageStatus E n i") (auto simp: List.map_filter_simps)
qed (simp add: List.map_filter_simps)

lemma enriched_id: "enriched E p = Some img \<Longrightarrow> ImageID img \<noteq> '''' \<and> label_map (ImageLabels img)"
  by (auto simp: enriched_def ImageStatus_map split: outcome.splits if_splits)

subsection \<open>The contract of the client\<close>

text \<open>What the exporter relies on: containers carry their pod, an image without an ID carries nothing,
  a listed image has one, and labels form a map.\<close>

locale cri_client =
  fixes cri :: cri_ops
  assumes running_pod: "op_ListRunningContainers cri = Ok cs \<Longrightarrow> c \<in> set cs \<Longrightarrow>
      PodName c \<noteq> '''' \<and> PodNamespace c \<noteq> '''' \<and> ContainerName c \<noteq> pauseContainerName"
    and listed_id: "op_ListImages cri = Ok imgs \<Longrightarrow> img \<in> set imgs \<Longrightarrow> ImageID img \<noteq> ''''"
    and listed_map: "op_ListImages cri = Ok imgs \<Longrightarrow> img \<in> set imgs \<Longrightarrow> label_map (ImageLabels img)"
    and status_map: "op_ImageStatus cri n i = Ok img \<Longrightarrow> label_map (ImageLabels img)"
    and status_zero: "op_ImageStatus cri n i = Ok img \<Longrightarrow> ImageID img = '''' \<Longrightarrow> img = zero_Image"

lemma running_containers_pod:
  "running_containers E n ctrs = Ok cs \<Longrightarrow> c \<in> set cs \<Longrightarrow>
     PodName c \<noteq> '''' \<and> PodNamespace c \<noteq> '''' \<and> ContainerName c \<noteq> pauseContainerName"
proof (induction ctrs arbitrary: n cs)
  case (Cons ctr ctrs)
  show ?case
  proof (cases "key (ctr_Labels ctr) labelContainerName = pauseContainerName
      \<or> key (ctr_Labels ctr) labelPodName = '''' \<or> key (ctr_Labels ctr) labelPodNamespace = ''''")
    case True
    with Cons show ?thesis by (auto simp: Let_def)
  next
    case False
    with Cons.prems obtain rest c0 where "running_containers E (Suc n) ctrs = Ok rest" "cs = c0 # rest"
      "PodName c0 = key (ctr_Labels ctr) labelPodName" "PodNamespace c0 = key (ctr_Labels ctr) labelPodNamespace"
      "ContainerName c0 = key (ctr_Labels ctr) labelContainerName"
      by (auto simp: Let_def split: outcome.splits prod.splits)
    with False Cons.IH [of "Suc n" rest] Cons.prems(2) show ?thesis by auto
  qed
qed simp

interpretation cri: cri_client "CRIClient E" for E
proof
  show "PodName c \<noteq> '''' \<and> PodNamespace c \<noteq> '''' \<and> ContainerName c \<noteq> pauseContainerName"
    if "op_ListRunningContainers (CRIClient E) = Ok cs" "c \<in> set cs" for cs c
    using that running_containers_pod
    by (auto simp: CRIClient_def ListRunningContainers_def split: outcome.splits)
  have listed: "ImageID img \<noteq> '''' \<and> label_map (ImageLabels img)"
    if "op_ListImages (CRIClient E) = Ok imgs" "img \<in> set imgs" for imgs img
    using that enriched_id
    by (auto simp: CRIClient_def ListImages_def enrich_images_eq set_map_filter split: outcome.splits if_splits)
  show "ImageID img \<noteq> ''''" if "op_ListImages (CRIClient E) = Ok imgs" "img \<in> set imgs" for imgs img
    using listed that by blast
  show "label_map (ImageLabels img)" if "op_ListImages (CRIClient E) = Ok imgs" "img \<in> set imgs" for imgs img
    using listed that by blast
  show "label_map (ImageLabels img)" if "op_ImageStatus (CRIClient E) n i = Ok img" for n i img
    using that ImageStatus_map by (simp add: CRIClient_def)
  show "img = zero_Image" if "op_ImageStatus (CRIClient E) n i = Ok img" "ImageID img = ''''" for n i img
    using that ImageStatus_cases by (auto simp: CRIClient_def)
qed


subsection \<open>Properties\<close>

lemma digits_value_append:
  "digits_value m (xs @ ys) = (case digits_value m xs of None \<Rightarrow> None | Some k \<Rightarrow> digits_value k ys)"
  by (induction xs arbitrary: m) (auto simp: Let_def)

lemma digit_value: "d < 10 \<Longrightarrow> digits_value m [char_of (d + 48 :: nat)] = Some (10 * m + d)"
  by (simp add: Let_def)

lemma digits_value_digits: "digits_value 0 (digits n) = Some n"
proof (induction n rule: digits.induct)
  case (1 n)
  show ?case
  proof (cases "n < 10")
    case True
    with digit_value [of n 0] show ?thesis by (simp add: digits.simps [of n] del: digits_value.simps)
  next
    case False
    with 1 digit_value [of "n mod 10" "n div 10"] show ?thesis
      by (simp add: digits.simps [of n] digits_value_append del: digits_value.simps)
  qed
qed

lemma hd_digits: "hd (digits n) \<noteq> CHR ''-''"
proof
  assume "hd (digits n) = CHR ''-''"
  then have "CHR ''-'' \<in> digit_chars" using digits_chars [of n] digits_nonempty [of n] by (metis hd_in_set subsetD)
  from digit_chars_code [OF this] show False by simp
qed

lemma ParseInt_Itoa: "- (2 ^ 63) \<le> i \<Longrightarrow> i \<le> max_int64 \<Longrightarrow> ParseInt (Itoa i) = Some i"
  by (simp add: ParseInt_def Itoa_def Let_def digits_value_digits hd_digits)

text \<open>The process ID survives the trip through the runtime's verbose JSON: for every 64-bit integer, the
  decimal the runtime prints under \<open>pid\<close>, in whatever case and wherever it stands, is the PID the client
  reports, and without a \<open>pid\<close> field there is none.\<close>

theorem container_pid_roundtrip:
  assumes "rt_ContainerStatus E n i = Ok info" "info ''info'' = Some raw"
    and "json_parse E raw = Some (JObj (before @ after))"
    and "\<forall>(k, v) \<in> set (before @ after). \<not> is_field ''pid'' k"
  shows "containerPID E n i = Ok None
   \<and> (\<forall>E' k p. rt_ContainerStatus E' n i = Ok info
        \<and> json_parse E' raw = Some (JObj (before @ (k, JNum (Itoa p)) # after))
        \<and> is_field ''pid'' k \<and> - (2 ^ 63) \<le> p \<and> p \<le> max_int64 \<longrightarrow> containerPID E' n i = Ok (Some p))"
proof -
  have skip: "store_pid kvs q = Some q" if "\<forall>(k, v) \<in> set kvs. \<not> is_field ''pid'' k" for kvs q
    using that by (induction kvs) auto
  have skip_before: "store_pid (kvs @ more) q = store_pid more q" if "\<forall>(k, v) \<in> set kvs. \<not> is_field ''pid'' k" for kvs more q
    using that by (induction kvs) auto
  have "store_pid (before @ (k, JNum (Itoa p)) # after) None = Some (Some p)"
    if "is_field ''pid'' k" "- (2 ^ 63) \<le> p" "p \<le> max_int64" for k p
    using that assms(4) by (simp add: skip_before skip ParseInt_Itoa)
  then show ?thesis
    using assms skip by (auto simp: containerPID_def unmarshal_pid_def)
qed

definition example_cri :: "json \<Rightarrow> cri_env" where
  "example_cri doc =
     \<lparr> rt_ListContainers = (\<lambda>st. if st = CONTAINER_RUNNING then
          Ok [\<lparr> ctr_Id = ''c1'', ctr_Labels = [''io.kubernetes.pod.name'' \<mapsto> ''p'', ''io.kubernetes.pod.namespace'' \<mapsto> ''ns'',
                                          ''io.kubernetes.container.name'' \<mapsto> ''app''],
                ctr_Image = Some \<lparr> ri_Image = ''img'', ri_UserSpecifiedImage = ''user'' \<rparr>, ctr_ImageRef = ''sha'' \<rparr>,
              \<lparr> ctr_Id = ''c2'', ctr_Labels = [''io.kubernetes.pod.name'' \<mapsto> ''p'', ''io.kubernetes.pod.namespace'' \<mapsto> ''ns'',
                                          ''io.kubernetes.container.name'' \<mapsto> ''POD''],
                ctr_Image = None, ctr_ImageRef = '''' \<rparr>] else Ok []),
       rt_ContainerStatus = (\<lambda>_ _. Ok [''info'' \<mapsto> ''raw'']),
       im_ListImages = Ok [''a'', ''b''],
       im_ImageStatus = (\<lambda>_ i. if i = ''b'' then Err (External ''gone'') else
          Ok \<lparr> resp_Image = Some i, resp_Info = [''info'' \<mapsto> ''raw''] \<rparr>),
       json_parse = (\<lambda>_. Some doc),
       time_UnmarshalJSON = (\<lambda>v. case v of JStr _ \<Rightarrow> Some (At 7) | _ \<Rightarrow> None) \<rparr>"

theorem container_pid_roundtrip_witness:
  "containerPID (example_cri (JObj [(''Pid'', JNum (Itoa 42))])) 0 ''c1'' = Ok (Some 42)"
proof -
  have "is_field ''pid'' ''Pid''" by code_simp
  then show ?thesis
    using container_pid_roundtrip [of "example_cri (JObj [])" 0 "''c1''" "[''info'' \<mapsto> ''raw'']" "''raw''" "[]" "[]"]
    by (simp add: example_cri_def max_int64_def)
qed

definition visible :: "runtime_container \<Rightarrow> bool" where
  "visible ctr \<longleftrightarrow> key (ctr_Labels ctr) labelContainerName \<noteq> pauseContainerName
     \<and> key (ctr_Labels ctr) labelPodName \<noteq> '''' \<and> key (ctr_Labels ctr) labelPodNamespace \<noteq> ''''"

definition info_of :: "cri_env \<Rightarrow> nat \<Rightarrow> runtime_container \<Rightarrow> ContainerInfo" where
  "info_of E n ctr =
     \<lparr> ID = ctr_Id ctr,
       PID = (case containerPID E n (ctr_Id ctr) of Ok p \<Rightarrow> p | _ \<Rightarrow> None),
       UserSpecifiedImage = (case ctr_Image ctr of None \<Rightarrow> '''' | Some i \<Rightarrow> ri_UserSpecifiedImage i),
       ImageName = (case ctr_Image ctr of None \<Rightarrow> '''' | Some i \<Rightarrow> ri_Image i),
       ImageRef = ctr_ImageRef ctr,
       PodName = key (ctr_Labels ctr) labelPodName,
       PodNamespace = key (ctr_Labels ctr) labelPodNamespace,
       ContainerName = key (ctr_Labels ctr) labelContainerName \<rparr>"

text \<open>C20. The client reports every running container that belongs to a pod and is not its pause container, in the
  order of the runtime, with the names kubelet gave it; a container whose status cannot be read or parsed
  is reported all the same, without a process ID.\<close>

theorem running_containers_exact:
  assumes "rt_ListContainers E CONTAINER_RUNNING = Ok ctrs" "\<And>n i. rt_ContainerStatus E n i \<noteq> Panic"
  shows "ListRunningContainers E =
     Ok (map (\<lambda>(n, ctr). info_of E n ctr) (filter (\<lambda>(n, ctr). visible ctr) (enumerate 0 ctrs)))"
proof -
  have pid: "containerPID E n i \<noteq> Panic" for n i
    using assms(2) by (auto simp: containerPID_def split: outcome.split option.split)
  have "running_containers E n cs =
      Ok (map (\<lambda>(n, ctr). info_of E n ctr) (filter (\<lambda>(n, ctr). visible ctr) (enumerate n cs)))" for n cs
  proof (induction cs arbitrary: n)
    case (Cons ctr cs)
    show ?case
    proof (cases "visible ctr")
      case True
      with Cons pid [of n "ctr_Id ctr"] show ?thesis
        by (cases "containerPID E n (ctr_Id ctr)") (auto simp: visible_def info_of_def Let_def split: option.split)
    next
      case False
      with Cons show ?thesis by (auto simp: visible_def Let_def)
    qed
  qed simp
  with assms(1) show ?thesis by (simp add: ListRunningContainers_def)
qed

theorem running_containers_exact_witness:
  "\<exists>c. ListRunningContainers (example_cri JNull) = Ok [c] \<and> ID c = ''c1'' \<and> PID c = None"
proof -
  have "rt_ContainerStatus (example_cri JNull) n i \<noteq> Panic" for n i by (simp add: example_cri_def)
  from running_containers_exact [OF _ this, of "the_Ok (rt_ListContainers (example_cri JNull) CONTAINER_RUNNING)"]
  show ?thesis
    by (simp add: example_cri_def visible_def key_def labelContainerName_def labelPodName_def
        labelPodNamespace_def pauseContainerName_def info_of_def containerPID_def unmarshal_pid_def)
qed

text \<open>C21. With the whole node in view, the images are those the runtime lists and can describe: a failing list is
  an error, a failing or empty status drops just that image, and every image returned has an ID and labels
  that form a map.\<close>

theorem list_images_exact:
  assumes "\<And>n i. im_ImageStatus E n i \<noteq> Panic" "im_ListImages E \<noteq> Panic"
  shows "(case im_ListImages E of
       Err e \<Rightarrow> ListImages E = Err (Errorf ''listing images via CRI'' (Some e))
     | Ok ids \<Rightarrow> ListImages E = Ok (List.map_filter (enriched E) (enumerate 0 ids))
     | Panic \<Rightarrow> True)
   \<and> (\<forall>imgs. ListImages E = Ok imgs \<longrightarrow> (\<forall>img \<in> set imgs. ImageID img \<noteq> '''' \<and> label_map (ImageLabels img)))"
proof
  have "ImageStatus E n i \<noteq> Panic" for n i
    using assms(1) by (auto simp: ImageStatus_def Let_def split: outcome.split option.split)
  then show "case im_ListImages E of
       Err e \<Rightarrow> ListImages E = Err (Errorf ''listing images via CRI'' (Some e))
     | Ok ids \<Rightarrow> ListImages E = Ok (List.map_filter (enriched E) (enumerate 0 ids))
     | Panic \<Rightarrow> True"
    by (simp add: ListImages_def enrich_images_eq split: outcome.split)
  show "\<forall>imgs. ListImages E = Ok imgs \<longrightarrow> (\<forall>img \<in> set imgs. ImageID img \<noteq> '''' \<and> label_map (ImageLabels img))"
    using cri.listed_id [of E] cri.listed_map [of E] by (simp add: CRIClient_def)
qed

theorem list_images_exact_witness:
  "ListImages (example_cri JNull) = Ok [\<lparr> ImageID = ''a'', ImageLabels = [], ImageCreated = None \<rparr>]"
proof -
  have "im_ImageStatus (example_cri JNull) n i \<noteq> Panic" "im_ListImages (example_cri JNull) \<noteq> Panic" for n i
    by (simp_all add: example_cri_def)
  from list_images_exact [OF this] show ?thesis
    by (simp add: example_cri_def enriched_def ImageStatus_def parseImageInfo_def unmarshal_with_def zero_oci_def
        List.map_filter_simps Let_def)
qed

definition oci_doc :: "json \<Rightarrow> (string \<times> string) list \<Rightarrow> json_obj" where
  "oci_doc created labels =
     [(''created'', created), (''config'', JObj [(''Labels'', JObj (map (\<lambda>(k, v). (k, JStr v)) labels))])]"

text \<open>C22. Both shapes of the runtime's JSON give back the image's metadata: an OCI config at the top level (CRI-O)
  and the same config under \<open>imageSpec\<close> (containerd) yield its labels and creation time, and a reply without
  \<open>info\<close>, or one that is not JSON, yields none, never an error.\<close>

theorem image_info_roundtrip:
  assumes "distinct (map fst labels)" "time_UnmarshalJSON E created = Some t" "created \<noteq> JNull" "raw \<noteq> ''''"
    and "verbose ''info'' = Some raw"
  shows "(json_parse E raw = Some (JObj (oci_doc created labels))
        \<or> json_parse E raw = Some (JObj [(''chainID'', JStr chain), (''imageSpec'', JObj (oci_doc created labels))]) \<longrightarrow>
      parseImageInfo E verbose = \<lparr> meta_Labels = labels, meta_Created = Some t \<rparr>)
   \<and> (json_parse E raw = None \<longrightarrow> parseImageInfo E verbose = \<lparr> meta_Labels = [], meta_Created = None \<rparr>)"
proof -
  have fields: "is_field ''created'' ''created''" "\<not> is_field ''created'' ''config''" "is_field ''config'' ''config''"
    "is_field ''Labels'' ''Labels''" "\<not> is_field ''imageSpec'' ''created''" "\<not> is_field ''imageSpec'' ''config''"
    "\<not> is_field ''imageSpec'' ''chainID''" "is_field ''imageSpec'' ''imageSpec''"
    "\<not> is_field ''created'' ''chainID''" "\<not> is_field ''config'' ''chainID''"
    "\<not> is_field ''created'' ''imageSpec''" "\<not> is_field ''config'' ''imageSpec''"
    by code_simp+
  have "store_label_entries (map (\<lambda>(k, v). (k, JStr v)) ls) m = Some (m @ ls)"
    if "distinct (map fst (m @ ls))" for ls m
    using that
  proof (induction ls arbitrary: m)
    case (Cons kv ls)
    obtain k v where kv: "kv = (k, v)" by fastforce
    with Cons.prems have "AList.update k v m = m @ [(k, v)]"
      by (induction m) auto
    with Cons.IH [of "m @ [(k, v)]"] Cons.prems show ?case by (simp add: kv)
  qed simp
  from this [of "[]" labels] assms(1) have labels: "store_label_entries (map (\<lambda>(k, v). (k, JStr v)) labels) [] = Some labels"
    by simp
  have oci: "store_oci (time_UnmarshalJSON E) (oci_doc created labels) zero_oci = Some \<lparr> oci_Created = Some t, oci_Labels = labels \<rparr>"
    using assms(2,3) by (cases created) (simp_all add: oci_doc_def fields labels zero_oci_def)
  have no_ctd: "store_ctd (time_UnmarshalJSON E) (oci_doc created labels) zero_oci = Some zero_oci"
    by (simp add: oci_doc_def fields)
  show ?thesis
    using assms(4,5) oci no_ctd
    by (auto simp: parseImageInfo_eq unmarshal_with_def or_zero_def fields zero_oci_def Let_def)
qed

theorem image_info_roundtrip_witness:
  "parseImageInfo (example_cri (JObj [(''chainID'', JStr ''x''), (''imageSpec'', JObj (oci_doc (JStr ''t'') [(''k'', ''v'')]))]))
     [''info'' \<mapsto> ''raw''] = \<lparr> meta_Labels = [(''k'', ''v'')], meta_Created = Some (At 7) \<rparr>"
  using image_info_roundtrip [of "[(''k'', ''v'')]" "example_cri (JObj [(''chainID'', JStr ''x''),
      (''imageSpec'', JObj (oci_doc (JStr ''t'') [(''k'', ''v'')]))])" "JStr ''t''" "At 7" "''raw''" "[''info'' \<mapsto> ''raw'']" "''x''"]
  by (simp add: example_cri_def)

end
