(* ===== verification/Node_Exporter.thy ===== *)
theory Node_Exporter
  imports Prometheus Label_Values OS_Release CRI_Client
begin

section \<open>The node exporter (\<^verbatim>\<open>internal/nodeexporter/exporter.go\<close>)\<close>

text \<open>
  On a scrape the node exporter lists the running containers of its node, reads the os-release file of
  each through the container's root below \<open>/proc\<close>, and describes the images the runtime holds, or only
  those in use. The CRI client is used through its interface \<open>cri_ops\<close>; the file system and the label
  check of the Prometheus library are the parameter \<open>node_env\<close>.
\<close>

subsection \<open>Metrics and configuration\<close>

definition os_fields :: "string list" where
  "os_fields = [''BUILD_ID'', ''ID'', ''ID_LIKE'', ''IMAGE_ID'', ''IMAGE_VERSION'', ''NAME'', ''PRETTY_NAME'',
     ''VARIANT'', ''VARIANT_ID'', ''VERSION'', ''VERSION_CODENAME'', ''VERSION_ID'']"

definition metricNodeContainerInfo :: Desc where
  "metricNodeContainerInfo =
     \<lparr> fqName = (''container_image'', ''node_container'', ''info''),
       variableLabels = [''id'', ''namespace'', ''pod'', ''container'', ''image'', ''image_id'',
         ''os_build_id'', ''os_id'', ''os_id_like'', ''os_image_id'', ''os_image_version'', ''os_name'', ''os_pretty_name'',
         ''os_variant'', ''os_variant_id'', ''os_version'', ''os_version_codename'', ''os_version_id''] \<rparr>"

definition metricNodeImageLabels :: Desc where
  "metricNodeImageLabels =
     \<lparr> fqName = (''container_image'', ''node_image'', ''labels''), variableLabels = [''image_id'', ''key'', ''value''] \<rparr>"

definition metricNodeImageCreated :: Desc where
  "metricNodeImageCreated =
     \<lparr> fqName = (''container_image'', ''node_image'', ''created''), variableLabels = [''image_id''] \<rparr>"

definition metricNodeUp :: Desc where
  "metricNodeUp = \<lparr> fqName = (''container_image'', ''node_exporter'', ''up''), variableLabels = [] \<rparr>"

lemmas node_descs = metricNodeContainerInfo_def metricNodeImageLabels_def metricNodeImageCreated_def metricNodeUp_def

definition DescribeNode :: "Desc list" where
  "DescribeNode = [metricNodeContainerInfo, metricNodeImageLabels, metricNodeImageCreated, metricNodeUp]"

record NodeExporter =
  cri_client_ops :: cri_ops
  procRoot :: string
  onlyImagesInUse :: bool
  labelAllowlist :: "string list"

definition defaultProcRoot :: string where
  "defaultProcRoot = ''/host/proc''"

datatype node_option = WithProcRoot string | WithOnlyImagesInUse bool | WithNodeLabelAllowlist "string list"

fun apply_node_option :: "node_option \<Rightarrow> NodeExporter \<Rightarrow> NodeExporter" where
  "apply_node_option (WithProcRoot path) e = e\<lparr> procRoot := path \<rparr>"
| "apply_node_option (WithOnlyImagesInUse only) e = e\<lparr> onlyImagesInUse := only \<rparr>"
| "apply_node_option (WithNodeLabelAllowlist keys) e = e\<lparr> labelAllowlist := keys \<rparr>"

definition NewExporter :: "cri_ops \<Rightarrow> node_option list \<Rightarrow> NodeExporter" where
  "NewExporter cri opts =
     fold apply_node_option opts
       \<lparr> cri_client_ops = cri, procRoot = defaultProcRoot, onlyImagesInUse = False, labelAllowlist = [] \<rparr>"

text \<open>A directory opened with \<open>os.OpenRoot\<close> is the function that opens the files below it; the argument of
  \<open>OpenRoot\<close> is the list \<open>filepath.Join\<close> joins.\<close>

record node_env =
  os_OpenRoot :: "string list \<Rightarrow> (string \<Rightarrow> reader outcome) outcome"
  n_label_ok :: label_check

subsection \<open>Reading os-release\<close>

fun open_first :: "(string \<Rightarrow> reader outcome) \<Rightarrow> string list \<Rightarrow> (string \<rightharpoonup> string) outcome" where
  "open_first root [] = Err errNoOSRelease"
| "open_first root (rel # rels) =
     (case root rel of
        Panic \<Rightarrow> Panic
      | Err e \<Rightarrow>
          if error_is ErrNotExist e then open_first root rels
          else Err (Errorf (''opening '' @ rel) (Some e))
      | Ok f \<Rightarrow> ParseOSRelease f)"

definition readOSRelease :: "node_env \<Rightarrow> string \<Rightarrow> int \<Rightarrow> (string \<rightharpoonup> string) outcome" where
  "readOSRelease E root_dir pid =
     (case wrap ''opening container root'' (os_OpenRoot E [root_dir, Itoa pid, ''root'']) of
        Err e \<Rightarrow> Err e | Panic \<Rightarrow> Panic
      | Ok root \<Rightarrow> open_first root [''etc/os-release'', ''usr/lib/os-release''])"

definition info_labels :: "ContainerInfo \<Rightarrow> (string \<rightharpoonup> string) \<Rightarrow> string list" where
  "info_labels container osr =
     [ID container, PodNamespace container, PodName container, ContainerName container,
      UserSpecifiedImage container, ImageRef container] @ map (key osr) os_fields"

definition collectOSInfo :: "node_env \<Rightarrow> NodeExporter \<Rightarrow> ContainerInfo \<Rightarrow> chan \<Rightarrow> chan" where
  "collectOSInfo E X container ch =
     (if PID container = None \<or> PID container = Some 0 then ch
      else
        let r = readOSRelease E (procRoot X) (the (PID container));
            emit_info = (\<lambda>osr. send (n_label_ok E) metricNodeContainerInfo (Float 1) (info_labels container osr) ch)
        in case r of
             Ok osr \<Rightarrow> emit_info osr
           | Err e \<Rightarrow> if error_is errNoOSRelease e then emit_info Map.empty else ch
           | Panic \<Rightarrow> crash ch)"

subsection \<open>Images\<close>

fun node_allowed_from :: "string list \<Rightarrow> string \<Rightarrow> bool" where
  "node_allowed_from [] label_key = False"
| "node_allowed_from (k # ks) label_key = (if k = label_key then True else node_allowed_from ks label_key)"

definition node_allowed :: "string list \<Rightarrow> string \<Rightarrow> bool" where
  "node_allowed allowlist label_key =
     (if length allowlist = 0 then True else node_allowed_from allowlist label_key)"

text \<open>The loop of the only-in-use mode; the number is that of the \<open>ImageStatus\<close> call.\<close>

fun images_in_use :: "NodeExporter \<Rightarrow> string set \<Rightarrow> nat \<Rightarrow> ContainerInfo list \<Rightarrow> CRIImage list outcome" where
  "images_in_use X seen n [] = Ok []"
| "images_in_use X seen n (ctr # ctrs) =
     (let i = (if ImageRef ctr = '''' then ImageName ctr else ImageRef ctr)
      in if i = '''' \<or> i \<in> seen then images_in_use X seen n ctrs
         else case op_ImageStatus (cri_client_ops X) n i of
                Panic \<Rightarrow> Panic
              | Err _ \<Rightarrow> images_in_use X (insert i seen) (Suc n) ctrs
              | Ok img \<Rightarrow>
                  (case images_in_use X (insert i seen) (Suc n) ctrs of
                     Ok imgs \<Rightarrow> Ok (img # imgs)
                   | e \<Rightarrow> e))"

definition gatherImages :: "NodeExporter \<Rightarrow> ContainerInfo list \<Rightarrow> CRIImage list outcome" where
  "gatherImages X containers =
     (if \<not> onlyImagesInUse X then op_ListImages (cri_client_ops X)
      else images_in_use X {} 0 containers)"

definition emitImageMetrics :: "node_env \<Rightarrow> NodeExporter \<Rightarrow> CRIImage \<Rightarrow> chan \<Rightarrow> chan" where
  "emitImageMetrics E X img ch =
     (if ImageID img = '''' then ch
      else
        let ch1 = (case ImageCreated img of
                     None \<Rightarrow> ch
                   | Some t \<Rightarrow> send (n_label_ok E) metricNodeImageCreated (Float (float64_of_int (Unix t))) [ImageID img] ch)
        in send_entries (n_label_ok E) metricNodeImageLabels (node_allowed (labelAllowlist X)) truncateLabelValue
             (ImageID img) (ImageLabels img) ch1)"

subsection \<open>Collect\<close>

fun collect_infos :: "node_env \<Rightarrow> NodeExporter \<Rightarrow> ContainerInfo list \<Rightarrow> chan \<Rightarrow> chan" where
  "collect_infos E X [] ch = ch"
| "collect_infos E X (c # cs) ch =
     (let ch' = collectOSInfo E X c ch in if crashed ch' then ch' else collect_infos E X cs ch')"

fun emit_images :: "node_env \<Rightarrow> NodeExporter \<Rightarrow> CRIImage list \<Rightarrow> chan \<Rightarrow> chan" where
  "emit_images E X [] ch = ch"
| "emit_images E X (img # imgs) ch =
     (let ch' = emitImageMetrics E X img ch in if crashed ch' then ch' else emit_images E X imgs ch')"

text \<open>\<open>collectImages\<close> returns its error beside the channel.\<close>

definition collectImages :: "node_env \<Rightarrow> NodeExporter \<Rightarrow> ContainerInfo list \<Rightarrow> chan \<Rightarrow> chan \<times> error option" where
  "collectImages E X containers ch =
     (case gatherImages X containers of
        Err e \<Rightarrow> (ch, Some e)
      | Panic \<Rightarrow> (crash ch, None)
      | Ok images \<Rightarrow> (emit_images E X images ch, None))"

definition CollectNode :: "node_env \<Rightarrow> NodeExporter \<Rightarrow> chan" where
  "CollectNode E X =
     (case op_ListRunningContainers (cri_client_ops X) of
        Panic \<Rightarrow> crash (Open [])
      | Err _ \<Rightarrow> send (n_label_ok E) metricNodeUp (Float 0) [] (Open [])
      | Ok containers \<Rightarrow>
          (let ch = collect_infos E X containers (Open []) in
           if crashed ch then ch
           else case collectImages E X containers ch of
                  (ch1, err) \<Rightarrow>
                    if crashed ch1 then ch1
                    else send (n_label_ok E) metricNodeUp (Float (if err = None then 1 else 0)) [] ch1))"


subsection \<open>What a scrape sends\<close>

text \<open>The \<open>info\<close> metric of a container, if it gets one; the metrics of an image.\<close>

definition node_info :: "node_env \<Rightarrow> NodeExporter \<Rightarrow> ContainerInfo \<Rightarrow> metric option" where
  "node_info E X c =
     (if PID c = None \<or> PID c = Some 0 then None
      else case readOSRelease E (procRoot X) (the (PID c)) of
             Ok osr \<Rightarrow> Some \<lparr> m_desc = metricNodeContainerInfo, m_value = Float 1, m_labels = info_labels c osr \<rparr>
           | Err e \<Rightarrow> if error_is errNoOSRelease e
               then Some \<lparr> m_desc = metricNodeContainerInfo, m_value = Float 1, m_labels = info_labels c Map.empty \<rparr>
               else None
           | Panic \<Rightarrow> None)"

definition image_metrics :: "NodeExporter \<Rightarrow> CRIImage \<Rightarrow> metric list" where
  "image_metrics X img =
     (if ImageID img = '''' then []
      else (case ImageCreated img of
              None \<Rightarrow> []
            | Some t \<Rightarrow> [\<lparr> m_desc = metricNodeImageCreated, m_value = Float (float64_of_int (Unix t)),
                          m_labels = [ImageID img] \<rparr>])
           @ entry_metrics metricNodeImageLabels (node_allowed (labelAllowlist X)) truncateLabelValue
               (ImageID img) (ImageLabels img))"

definition node_up_metric :: "int \<Rightarrow> metric" where
  "node_up_metric b = \<lparr> m_desc = metricNodeUp, m_value = Float b, m_labels = [] \<rparr>"

text \<open>What has to be valid UTF-8 for the scrape not to panic.\<close>

definition utf8_info :: "node_env \<Rightarrow> NodeExporter \<Rightarrow> ContainerInfo \<Rightarrow> bool" where
  "utf8_info E X c \<longleftrightarrow> (case node_info E X c of None \<Rightarrow> True | Some m \<Rightarrow> list_all valid_utf8 (m_labels m))"

definition utf8_image :: "CRIImage \<Rightarrow> bool" where
  "utf8_image img \<longleftrightarrow> valid_utf8 (ImageID img)
     \<and> list_all (\<lambda>(k, v). valid_utf8 k \<and> valid_utf8 v) (ImageLabels img)"

text \<open>The file system only fails with errors.\<close>

definition fs_total :: "node_env \<Rightarrow> bool" where
  "fs_total E \<longleftrightarrow> (\<forall>elems. os_OpenRoot E elems \<noteq> Panic)
     \<and> (\<forall>elems root rel. os_OpenRoot E elems = Ok root \<longrightarrow> root rel \<noteq> Panic)"

lemma open_first_no_panic: "(\<And>rel. root rel \<noteq> Panic) \<Longrightarrow> open_first root rels \<noteq> Panic"
  by (induction rels) (auto simp: ParseOSRelease_no_panic split: outcome.split)

lemma readOSRelease_no_panic: "fs_total E \<Longrightarrow> readOSRelease E dir pid \<noteq> Panic"
proof (cases "os_OpenRoot E [dir, Itoa pid, ''root'']")
  case (Ok root)
  assume "fs_total E"
  with Ok have "\<And>rel. root rel \<noteq> Panic" by (auto simp: fs_total_def)
  then have "open_first root rels \<noteq> Panic" for rels by (rule open_first_no_panic)
  with Ok show ?thesis by (simp add: readOSRelease_def del: open_first.simps)
qed (simp_all add: readOSRelease_def fs_total_def)

lemma length_info_labels: "length (info_labels c osr) = length (variableLabels metricNodeContainerInfo)"
  by (simp add: info_labels_def os_fields_def metricNodeContainerInfo_def)

lemma collectOSInfo_open:
  assumes "label_contract (n_label_ok E)" "fs_total E" "utf8_info E X c"
  shows "collectOSInfo E X c (Open ms) = Open (ms @ (case node_info E X c of None \<Rightarrow> [] | Some m \<Rightarrow> [m]))"
  using assms(3) readOSRelease_no_panic [OF assms(2), of "procRoot X" "the (PID c)"]
  by (auto simp: collectOSInfo_def node_info_def utf8_info_def Let_def send_Open [OF assms(1)] good_labels_def
      length_info_labels split: outcome.splits if_splits)

lemma collect_infos_open:
  assumes "label_contract (n_label_ok E)" "fs_total E"
  shows "list_all (utf8_info E X) cs \<Longrightarrow>
     collect_infos E X cs (Open ms) = Open (ms @ List.map_filter (node_info E X) cs)"
proof (induction cs arbitrary: ms)
  case (Cons c cs)
  then show ?case
    using collectOSInfo_open [OF assms, of X c ms]
    by (cases "node_info E X c") (simp_all add: List.map_filter_simps Let_def)
qed (simp add: List.map_filter_simps)

lemma emitImageMetrics_open:
  assumes "label_contract (n_label_ok E)" "utf8_image img"
  shows "emitImageMetrics E X img (Open ms) = Open (ms @ image_metrics X img)"
proof -
  have "list_all (\<lambda>(k, v). allow k \<longrightarrow> valid_utf8 k \<and> valid_utf8 (truncateLabelValue v)) (ImageLabels img)" for allow
    using assms(2) truncateLabelValue_valid by (auto simp: utf8_image_def list_all_iff)
  then have entries: "send_entries (n_label_ok E) metricNodeImageLabels allow truncateLabelValue (ImageID img) (ImageLabels img) (Open ns) =
      Open (ns @ entry_metrics metricNodeImageLabels allow truncateLabelValue (ImageID img) (ImageLabels img))" for allow ns
    using assms by (intro send_entries_Open) (auto simp: metricNodeImageLabels_def utf8_image_def)
  have "good_labels metricNodeImageCreated [ImageID img]"
    using assms(2) by (simp add: good_labels_def metricNodeImageCreated_def utf8_image_def)
  then show ?thesis
    by (simp add: emitImageMetrics_def image_metrics_def Let_def entries send_Open [OF assms(1)] split: option.split)
qed

lemma emit_images_open:
  "label_contract (n_label_ok E) \<Longrightarrow> list_all utf8_image imgs \<Longrightarrow>
     emit_images E X imgs (Open ms) = Open (ms @ concat (map (image_metrics X) imgs))"
  by (induction imgs arbitrary: ms) (simp_all add: emitImageMetrics_open Let_def)

lemma send_up: "label_contract (n_label_ok E) \<Longrightarrow>
    send (n_label_ok E) metricNodeUp (Float b) [] (Open ms) = Open (ms @ [node_up_metric b])"
  by (simp add: send_Open good_labels_def node_up_metric_def metricNodeUp_def)

lemma CollectNode_open:
  assumes "label_contract (n_label_ok E)" "fs_total E"
    and "op_ListRunningContainers (cri_client_ops X) = Ok cs" "list_all (utf8_info E X) cs"
    and "\<And>imgs. gatherImages X cs = Ok imgs \<Longrightarrow> list_all utf8_image imgs" "gatherImages X cs \<noteq> Panic"
  shows "CollectNode E X = Open (List.map_filter (node_info E X) cs
     @ (case gatherImages X cs of
          Ok imgs \<Rightarrow> concat (map (image_metrics X) imgs) @ [node_up_metric 1]
        | _ \<Rightarrow> [node_up_metric 0]))"
  using assms(5,6)
  by (cases "gatherImages X cs")
    (simp_all add: CollectNode_def assms(3) collect_infos_open [OF assms(1,2,4)] collectImages_def
      emit_images_open [OF assms(1)] send_up [OF assms(1)] Let_def)

subsection \<open>The images in use\<close>

definition used_image :: "ContainerInfo \<Rightarrow> string" where
  "used_image c = (if ImageRef c = '''' then ImageName c else ImageRef c)"

definition status_at :: "NodeExporter \<Rightarrow> nat \<times> string \<Rightarrow> CRIImage option" where
  "status_at X p = (case op_ImageStatus (cri_client_ops X) (fst p) (snd p) of Ok img \<Rightarrow> Some img | _ \<Rightarrow> None)"

lemma images_in_use_eq:
  assumes "\<And>n i. op_ImageStatus (cri_client_ops X) n i \<noteq> Panic"
  shows "images_in_use X seen n cs =
     Ok (List.map_filter (status_at X)
       (enumerate n (filter (\<lambda>i. i \<noteq> '''' \<and> i \<notin> seen) (firsts (map used_image cs)))))"
proof (induction cs arbitrary: seen n)
  case Nil
  then show ?case by (simp add: List.map_filter_simps)
next
  case (Cons c cs)
  let ?i = "used_image c"
  have i: "(if ImageRef c = '''' then ImageName c else ImageRef c) = ?i" by (simp add: used_image_def)
  show ?case
  proof (cases "?i = '''' \<or> ?i \<in> seen")
    case True
    then have "filter (\<lambda>i. i \<noteq> ?i \<and> i \<noteq> '''' \<and> i \<notin> seen) F = filter (\<lambda>i. i \<noteq> '''' \<and> i \<notin> seen) F" for F
      by (intro filter_cong) auto
    with True show ?thesis by (auto simp: Let_def i Cons)
  next
    case False
    have "filter (\<lambda>i. i \<noteq> ?i \<and> i \<noteq> '''' \<and> i \<notin> seen) F = filter (\<lambda>i. i \<noteq> '''' \<and> i \<notin> insert ?i seen) F" for F
      by (intro filter_cong) auto
    moreover have "status_at X (n, ?i) = (case op_ImageStatus (cri_client_ops X) n ?i of Ok img \<Rightarrow> Some img | _ \<Rightarrow> None)"
      by (simp add: status_at_def)
    ultimately show ?thesis
      using False assms [of n ?i]
      by (cases "op_ImageStatus (cri_client_ops X) n ?i") (auto simp: Let_def i Cons List.map_filter_simps)
  qed
qed


lemma images_in_use_status:
  "images_in_use X seen n cs = Ok imgs \<Longrightarrow> img \<in> set imgs \<Longrightarrow>
     \<exists>m i. op_ImageStatus (cri_client_ops X) m i = Ok img"
proof (induction cs arbitrary: seen n imgs)
  case (Cons c cs)
  let ?i = "if ImageRef c = '''' then ImageName c else ImageRef c"
  show ?case
  proof (cases "?i = '''' \<or> ?i \<in> seen")
    case True
    with Cons show ?thesis by (simp add: Let_def)
  next
    case False
    show ?thesis
    proof (cases "op_ImageStatus (cri_client_ops X) n ?i")
      case (Ok img')
      with False Cons.prems(1) obtain rest where
        "images_in_use X (insert ?i seen) (Suc n) cs = Ok rest" "imgs = img' # rest"
        by (auto simp: Let_def split: outcome.splits)
      with Cons.IH [of "insert ?i seen" "Suc n" rest] Cons.prems(2) Ok show ?thesis by auto
    next
      case (Err e)
      with False Cons.prems(1) have "images_in_use X (insert ?i seen) (Suc n) cs = Ok imgs"
        by (simp add: Let_def)
      with Cons.IH Cons.prems(2) show ?thesis by blast
    next
      case Panic
      with False Cons.prems(1) show ?thesis by (simp add: Let_def)
    qed
  qed
qed simp

context cri_client
begin

lemma gathered_map:
  "cri_client_ops X = cri \<Longrightarrow> gatherImages X cs = Ok imgs \<Longrightarrow> img \<in> set imgs \<Longrightarrow> label_map (ImageLabels img)"
proof (cases "onlyImagesInUse X")
  case True
  assume X: "cri_client_ops X = cri" and imgs: "gatherImages X cs = Ok imgs" "img \<in> set imgs"
  then obtain m i where "op_ImageStatus cri m i = Ok img"
    using images_in_use_status [of X "{}" 0 cs imgs img] True by (auto simp: gatherImages_def)
  then show ?thesis by (rule status_map)
next
  case False
  assume "cri_client_ops X = cri" "gatherImages X cs = Ok imgs" "img \<in> set imgs"
  with False show ?thesis using listed_map by (auto simp: gatherImages_def)
qed

end

subsection \<open>No series twice\<close>

lemma distinct_image_metrics: "label_map (ImageLabels img) \<Longrightarrow> distinct (map series (image_metrics X img))"
proof -
  let ?l = "entry_metrics metricNodeImageLabels (node_allowed (labelAllowlist X)) truncateLabelValue (ImageID img) (ImageLabels img)"
  assume "label_map (ImageLabels img)"
  then have "distinct (map series ?l)" by (simp add: label_map_def distinct_entry_metrics)
  moreover have "m_desc m = metricNodeImageLabels" if "m \<in> set ?l" for m
    using that by (auto simp: entry_metrics_def)
  moreover have "metricNodeImageCreated \<noteq> metricNodeImageLabels" by (simp add: node_descs)
  ultimately show ?thesis
    by (auto simp: image_metrics_def series_def split: option.split)
qed

lemma image_metrics_owner: "m \<in> set (image_metrics X img) \<Longrightarrow> hd (m_labels m) = ImageID img"
  by (auto simp: image_metrics_def entry_metrics_def split: if_splits option.splits)

lemma image_metrics_desc:
  "m \<in> set (image_metrics X img) \<Longrightarrow> m_desc m \<in> {metricNodeImageCreated, metricNodeImageLabels}"
  by (auto simp: image_metrics_def entry_metrics_def split: if_splits option.splits)

lemma distinct_images:
  "distinct (map ImageID imgs) \<Longrightarrow> list_all (label_map \<circ> ImageLabels) imgs \<Longrightarrow>
     distinct (map series (concat (map (image_metrics X) imgs)))"
proof (induction imgs)
  case (Cons img imgs)
  have "series m \<noteq> series m'"
    if m: "m \<in> set (image_metrics X img)" and m': "m' \<in> set (concat (map (image_metrics X) imgs))" for m m'
  proof -
    obtain img' where "img' \<in> set imgs" "m' \<in> set (image_metrics X img')" using m' by auto
    then have "ImageID img' \<noteq> ImageID img" "hd (m_labels m') = ImageID img'"
      using image_metrics_owner [of m' X img'] Cons.prems(1) by (auto simp: image_iff)
    with image_metrics_owner [OF m] show ?thesis by (auto simp: series_def)
  qed
  moreover have "distinct (map series (image_metrics X img))"
    "distinct (map series (concat (map (image_metrics X) imgs)))"
    using Cons by (simp_all add: distinct_image_metrics)
  ultimately show ?case unfolding list.map concat.simps by (intro distinct_map_append)
qed simp

lemma node_info_shape:
  "node_info E X c = Some m \<Longrightarrow> m_desc m = metricNodeContainerInfo \<and> hd (m_labels m) = ID c"
  by (auto simp: node_info_def info_labels_def split: if_splits outcome.splits)

lemma distinct_node_infos:
  "distinct (map ID cs) \<Longrightarrow> distinct (map series (List.map_filter (node_info E X) cs))"
proof (induction cs)
  case (Cons c cs)
  show ?case
  proof (cases "node_info E X c")
    case None
    with Cons show ?thesis by (simp add: List.map_filter_simps)
  next
    case (Some m)
    have "series m \<noteq> series m'" if "m' \<in> set (List.map_filter (node_info E X) cs)" for m'
    proof -
      obtain c' where c': "c' \<in> set cs" "node_info E X c' = Some m'" using \<open>m' \<in> _\<close> by (auto simp: set_map_filter)
      then have "ID c' \<noteq> ID c" using Cons.prems by (auto simp: image_iff)
      then have "hd (m_labels m') \<noteq> hd (m_labels m)"
        using node_info_shape [OF Some] node_info_shape [OF c'(2)] by simp
      then show ?thesis by (auto simp: series_def)
    qed
    with Cons Some show ?thesis by (auto simp: List.map_filter_simps)
  qed
qed (simp add: List.map_filter_simps)

lemma distinct_node_scrape:
  assumes "distinct (map ID cs)" "distinct (map ImageID imgs)" "list_all (label_map \<circ> ImageLabels) imgs"
  shows "distinct (map series (List.map_filter (node_info E X) cs @ concat (map (image_metrics X) imgs) @ [node_up_metric b]))"
proof (intro distinct_map_append)
  show "distinct (map series (List.map_filter (node_info E X) cs))" by (rule distinct_node_infos [OF assms(1)])
  show "distinct (map series (concat (map (image_metrics X) imgs)))" by (rule distinct_images [OF assms(2,3)])
  show "distinct (map series [node_up_metric b])" by simp
  show "series m \<noteq> series m'" if "m \<in> set (concat (map (image_metrics X) imgs))" "m' \<in> set [node_up_metric b]" for m m'
    using that image_metrics_desc by (fastforce simp: series_def node_up_metric_def node_descs)
  show "series m \<noteq> series m'"
    if m: "m \<in> set (List.map_filter (node_info E X) cs)"
      and m': "m' \<in> set (concat (map (image_metrics X) imgs) @ [node_up_metric b])" for m m'
  proof -
    have "m_desc m = metricNodeContainerInfo" using m node_info_shape by (auto simp: set_map_filter)
    moreover have "m_desc m' \<in> {metricNodeImageCreated, metricNodeImageLabels, metricNodeUp}"
      using m' image_metrics_desc by (auto simp: node_up_metric_def)
    ultimately show ?thesis by (auto simp: series_def node_descs)
  qed
qed

subsection \<open>Only what is described\<close>

abbreviation "node_described ch \<equiv> m_desc ` set (sent ch) \<subseteq> set DescribeNode"

lemma collectOSInfo_descs: "node_described ch \<Longrightarrow> node_described (collectOSInfo E X c ch)"
proof -
  assume d: "node_described ch"
  have mem: "metricNodeContainerInfo \<in> set DescribeNode" by (simp add: DescribeNode_def)
  show ?thesis
    using d by (cases "readOSRelease E (procRoot X) (the (PID c))")
      (simp_all add: collectOSInfo_def Let_def descs_step [OF d mem])
qed

lemma emitImageMetrics_descs: "node_described ch \<Longrightarrow> node_described (emitImageMetrics E X img ch)"
proof -
  assume d: "node_described ch"
  have mem: "metricNodeImageCreated \<in> set DescribeNode" "metricNodeImageLabels \<in> set DescribeNode"
    by (simp_all add: DescribeNode_def)
  show ?thesis
    using d by (cases "ImageCreated img") (simp_all add: emitImageMetrics_def Let_def descs_step mem)
qed

lemma CollectNode_descs: "node_described (CollectNode E X)"
proof -
  have infos: "node_described ch \<Longrightarrow> node_described (collect_infos E X cs ch)" for cs ch
    by (induction cs arbitrary: ch) (simp_all add: Let_def collectOSInfo_descs)
  have images: "node_described ch \<Longrightarrow> node_described (emit_images E X imgs ch)" for imgs ch
    by (induction imgs arbitrary: ch) (simp_all add: Let_def emitImageMetrics_descs)
  have start: "node_described (Open [])" by simp
  have mem: "metricNodeUp \<in> set DescribeNode" by (simp add: DescribeNode_def)
  have coll: "node_described ch \<Longrightarrow> node_described (fst (collectImages E X cs ch))" for cs ch
    by (cases "gatherImages X cs") (simp_all add: collectImages_def images)
  show ?thesis
  proof (cases "op_ListRunningContainers (cri_client_ops X)")
    case (Ok cs)
    let ?r = "collectImages E X cs (collect_infos E X cs (Open []))"
    have "node_described (fst ?r)" by (rule coll [OF infos [OF start]])
    then show ?thesis
      using infos [OF start]
      by (cases ?r) (simp add: CollectNode_def Ok Let_def descs_step mem)
  qed (simp_all add: CollectNode_def descs_step mem)
qed

interpretation node_collector: collector DescribeNode "\<lambda>(E, X). CollectNode E X"
proof
  show "m_desc m \<in> set DescribeNode" if "m \<in> set (sent (case i of (E, X) \<Rightarrow> CollectNode E X))" for m i
    using that CollectNode_descs by (cases i) auto
  show "distinct (map fqName DescribeNode)" by (simp add: DescribeNode_def node_descs)
qed


subsection \<open>Properties\<close>

text \<open>A concrete node for the witnesses: one container with PID 7, whose os-release stands in \<open>/usr/lib\<close>.\<close>

definition example_file :: "string \<Rightarrow> node_env" where
  "example_file content =
     \<lparr> os_OpenRoot = (\<lambda>elems. if elems = [''/host/proc'', ''7'', ''root'']
          then Ok (\<lambda>rel. if rel = ''usr/lib/os-release'' then Ok (content, None) else Err ErrNotExist)
          else Err (External ''no such process'')),
       n_label_ok = example_labels \<rparr>"

definition example_node :: "bool \<Rightarrow> NodeExporter" where
  "example_node only =
     NewExporter (CRIClient (example_cri (JObj [(''pid'', JNum ''7'')]))) [WithOnlyImagesInUse only]"

lemma example_node_simps [simp]:
  "cri_client_ops (example_node only) = CRIClient (example_cri (JObj [(''pid'', JNum ''7'')]))"
  "procRoot (example_node only) = ''/host/proc''" "onlyImagesInUse (example_node only) = only"
  "labelAllowlist (example_node only) = []"
  by (simp_all add: example_node_def NewExporter_def defaultProcRoot_def)

definition example_container :: ContainerInfo where
  "example_container =
     \<lparr> ID = ''c1'', PID = Some 7, UserSpecifiedImage = ''user'', ImageName = ''img'', ImageRef = ''sha'',
       PodName = ''p'', PodNamespace = ''ns'', ContainerName = ''app'' \<rparr>"

lemma example_pid: "store_pid [(''pid'', JNum ''7'')] None = Some (Some 7)"
  by code_simp

lemma example_running:
  "op_ListRunningContainers (cri_client_ops (example_node only)) = Ok [example_container]"
  by (simp add: CRIClient_def ListRunningContainers_def example_cri_def key_def labelContainerName_def labelPodName_def
      labelPodNamespace_def pauseContainerName_def containerPID_def unmarshal_pid_def example_pid example_container_def
      Let_def del: store_pid.simps)

lemma example_status:
  "ImageStatus (example_cri (JObj [(''pid'', JNum ''7'')])) n i =
     (if i = '''' then Ok zero_Image else if i = ''b'' then Err (Errorf ''image status'' (Some (External ''gone'')))
      else Ok \<lparr> ImageID = i, ImageLabels = [], ImageCreated = None \<rparr>)"
proof -
  have fields: "\<not> is_field ''imageSpec'' ''pid''" "\<not> is_field ''created'' ''pid''" "\<not> is_field ''config'' ''pid''"
    by code_simp+
  show ?thesis
    by (simp add: ImageStatus_def example_cri_def parseImageInfo_def unmarshal_with_def fields zero_oci_def Let_def)
qed

lemma example_images:
  "gatherImages (example_node True) [example_container] = Ok [\<lparr> ImageID = ''sha'', ImageLabels = [], ImageCreated = None \<rparr>]"
  by (simp add: gatherImages_def CRIClient_def example_status example_container_def Let_def)

lemma example_fs: "fs_total (example_file content)"
  by (auto simp: fs_total_def example_file_def)

lemma example_read:
  "readOSRelease (example_file content) ''/host/proc'' 7 = ParseOSRelease (content, None)"
proof -
  have "Itoa 7 = ''7''" by code_simp
  then show ?thesis by (simp add: readOSRelease_def example_file_def)
qed

definition example_content :: string where
  "example_content = render [(''ID'', ''wolfi'')]"

lemma example_parse: "ParseOSRelease (example_content, None) = Ok [''ID'' \<mapsto> ''wolfi'']"
  using ParseOSRelease_render [of "[(''ID'', ''wolfi'')]"]
  by (simp add: example_content_def storable_def key_char_def MaxScanTokenSize_def)

lemma example_container_pid [simp]: "PID example_container = Some 7"
  by (simp add: example_container_def)

lemma example_info:
  "node_info (example_file example_content) (example_node only) example_container =
     Some \<lparr> m_desc = metricNodeContainerInfo, m_value = Float 1,
            m_labels = info_labels example_container [''ID'' \<mapsto> ''wolfi''] \<rparr>"
  by (simp add: node_info_def example_read example_parse)

lemma example_utf8_info: "utf8_info (example_file example_content) (example_node only) example_container"
proof -
  have "list_all valid_utf8 (info_labels example_container [''ID'' \<mapsto> ''wolfi''])"
    by (simp add: info_labels_def example_container_def os_fields_def key_def) code_simp
  then show ?thesis by (simp add: utf8_info_def example_info)
qed


text \<open>C8. A node scrape sends, in order: one \<open>info\<close> per running container whose PID is known and whose file
  system can be read, with the fields of its os-release file (empty ones when it has no such file); the
  metrics of every gathered image; and \<open>up\<close>, which is 0 when the images could not be listed.\<close>

theorem node_scrape_exact:
  assumes "label_contract (n_label_ok E)" "fs_total E"
    and "op_ListRunningContainers (cri_client_ops X) = Ok cs" "list_all (utf8_info E X) cs"
    and "\<And>imgs. gatherImages X cs = Ok imgs \<Longrightarrow> list_all utf8_image imgs" "gatherImages X cs \<noteq> Panic"
  shows "CollectNode E X = Open (List.map_filter (node_info E X) cs
     @ (case gatherImages X cs of
          Ok imgs \<Rightarrow> concat (map (image_metrics X) imgs) @ [node_up_metric 1]
        | _ \<Rightarrow> [node_up_metric 0]))"
  by (rule CollectNode_open [OF assms])

theorem node_scrape_exact_witness:
  "CollectNode (example_file example_content) (example_node True) =
     Open [\<lparr> m_desc = metricNodeContainerInfo, m_value = Float 1,
             m_labels = info_labels example_container [''ID'' \<mapsto> ''wolfi''] \<rparr>, node_up_metric 1]"
proof -
  have "utf8_image \<lparr> ImageID = ''sha'', ImageLabels = [], ImageCreated = None \<rparr>" by code_simp
  then have "gatherImages (example_node True) [example_container] = Ok imgs \<Longrightarrow> list_all utf8_image imgs" for imgs
    by (auto simp: example_images)
  moreover have "label_contract (n_label_ok (example_file example_content))"
    by (simp add: example_file_def example_labels_contract)
  ultimately show ?thesis
    using node_scrape_exact [OF _ example_fs example_running, of example_content True] example_utf8_info
    by (simp add: example_images example_info image_metrics_def entry_metrics_def List.map_filter_simps)
qed

text \<open>A node scrape always ends with one \<open>up\<close> metric; it is 1 iff the running containers could be listed and,
  unless only images in use are wanted, the images too: a container whose files are unreadable or an image
  whose status fails never brings it down.\<close>

theorem node_up_iff_listed:
  assumes "label_contract (n_label_ok E)" "fs_total E" "op_ListRunningContainers (cri_client_ops X) \<noteq> Panic"
      "op_ListImages (cri_client_ops X) \<noteq> Panic" "\<And>n i. op_ImageStatus (cri_client_ops X) n i \<noteq> Panic"
    and "\<And>cs. op_ListRunningContainers (cri_client_ops X) = Ok cs \<Longrightarrow> list_all (utf8_info E X) cs
      \<and> (\<forall>imgs. gatherImages X cs = Ok imgs \<longrightarrow> list_all utf8_image imgs)"
  shows "\<exists>ms. CollectNode E X = Open (ms @ [node_up_metric
       (if is_Ok (op_ListRunningContainers (cri_client_ops X))
           \<and> (onlyImagesInUse X \<or> is_Ok (op_ListImages (cri_client_ops X))) then 1 else 0)])
     \<and> metricNodeUp \<notin> m_desc ` set ms"
proof (cases "op_ListRunningContainers (cri_client_ops X)")
  case (Ok cs)
  have gather: "is_Ok (gatherImages X cs) \<longleftrightarrow> onlyImagesInUse X \<or> is_Ok (op_ListImages (cri_client_ops X))"
    "gatherImages X cs \<noteq> Panic"
    using assms(4) by (simp_all add: gatherImages_def images_in_use_eq [OF assms(5)])
  have infos: "metricNodeUp \<notin> m_desc ` set (List.map_filter (node_info E X) cs)"
    using node_info_shape [of E X] by (auto simp: set_map_filter node_descs)
  have images: "metricNodeUp \<notin> m_desc ` set (concat (map (image_metrics X) imgs))" for imgs
    using image_metrics_desc [of _ X] by (fastforce simp: node_descs)
  have eq: "CollectNode E X = Open (List.map_filter (node_info E X) cs
     @ (case gatherImages X cs of
          Ok imgs \<Rightarrow> concat (map (image_metrics X) imgs) @ [node_up_metric 1]
        | _ \<Rightarrow> [node_up_metric 0]))"
    using assms(6) [OF Ok] gather(2) by (intro CollectNode_open [OF assms(1,2) Ok]) auto
  show ?thesis
  proof (cases "gatherImages X cs")
    case imgs: (Ok imgs)
    with gather have "onlyImagesInUse X \<or> is_Ok (op_ListImages (cri_client_ops X))" by simp
    with infos images [of imgs] show ?thesis
      by (intro exI [of _ "List.map_filter (node_info E X) cs @ concat (map (image_metrics X) imgs)"])
        (auto simp: eq imgs Ok)
  next
    case (Err e)
    with gather have "\<not> (onlyImagesInUse X \<or> is_Ok (op_ListImages (cri_client_ops X)))" by simp
    with infos show ?thesis
      by (intro exI [of _ "List.map_filter (node_info E X) cs"]) (auto simp: eq Err Ok)
  qed (use gather in simp)
next
  case (Err e)
  then show ?thesis by (intro exI [of _ "[]"]) (simp add: CollectNode_def send_up [OF assms(1)])
next
  case Panic
  with assms(3) show ?thesis by simp
qed


lemma example_image_utf8: "utf8_image \<lparr> ImageID = ''sha'', ImageLabels = [], ImageCreated = None \<rparr>"
  by code_simp

lemma example_node_env: "label_contract (n_label_ok (example_file content))"
  by (simp add: example_file_def example_labels_contract)

lemma example_list_images: "im_ListImages (example_cri doc) = Ok [''a'', ''b'']"
  by (simp add: example_cri_def)

lemma example_node_total:
  "op_ListImages (cri_client_ops (example_node only)) \<noteq> Panic"
  "op_ImageStatus (cri_client_ops (example_node only)) n i \<noteq> Panic"
  by (simp_all add: CRIClient_def ListImages_def example_list_images enrich_images_eq example_status)

theorem node_up_iff_listed_witness:
  "\<exists>ms. CollectNode (example_file example_content) (example_node True) = Open (ms @ [node_up_metric 1])"
proof -
  have "op_ListRunningContainers (cri_client_ops (example_node True)) = Ok cs \<Longrightarrow>
      list_all (utf8_info (example_file example_content) (example_node True)) cs
      \<and> (\<forall>imgs. gatherImages (example_node True) cs = Ok imgs \<longrightarrow> list_all utf8_image imgs)" for cs
    unfolding example_running by (auto simp: example_utf8_info example_images example_image_utf8)
  from node_up_iff_listed [OF example_node_env example_fs _ example_node_total this]
  show ?thesis by (auto simp del: example_node_simps(1) simp: example_running)
qed

text \<open>C26. A node scrape never sends the same series twice, so Prometheus cannot reject it, provided the runtime's
  containers have different IDs and so have the gathered images; the labels of each image, parsed from
  the runtime's JSON, always form a map.\<close>

theorem node_no_duplicate_series:
  assumes "label_contract (n_label_ok E)" "fs_total E" "cri_client_ops X = CRIClient C"
    and "ListRunningContainers C = Ok cs" "list_all (utf8_info E X) cs" "distinct (map ID cs)"
    and "gatherImages X cs = Ok imgs" "list_all utf8_image imgs" "distinct (map ImageID imgs)"
  shows "distinct (map series (sent (CollectNode E X)))"
proof -
  have "list_all (label_map \<circ> ImageLabels) imgs"
    using cri.gathered_map [OF assms(3,7)] by (simp add: list_all_iff)
  then have "distinct (map series (List.map_filter (node_info E X) cs @ concat (map (image_metrics X) imgs) @ [node_up_metric 1]))"
    by (rule distinct_node_scrape [OF assms(6,9)])
  moreover have "op_ListRunningContainers (cri_client_ops X) = Ok cs"
    using assms(3,4) by (simp add: CRIClient_def)
  ultimately show ?thesis
    using CollectNode_open [OF assms(1,2) _ assms(5)] assms(7,8) by simp
qed

theorem node_no_duplicate_series_witness:
  "distinct (map series (sent (CollectNode (example_file example_content) (example_node True))))"
proof (rule node_no_duplicate_series [OF example_node_env example_fs example_node_simps(1)])
  show "ListRunningContainers (example_cri (JObj [(''pid'', JNum ''7'')])) = Ok [example_container]"
    using example_running [of True] by (simp add: CRIClient_def)
  show "gatherImages (example_node True) [example_container] = Ok [\<lparr> ImageID = ''sha'', ImageLabels = [], ImageCreated = None \<rparr>]"
    by (rule example_images)
qed (simp_all add: example_utf8_info example_image_utf8)

text \<open>C25. When only images in use are wanted, the exporter asks for each image reference once, in the order of its
  first container, and drops the ones whose status fails.\<close>

theorem images_in_use_exact:
  assumes "onlyImagesInUse X" "\<And>n i. op_ImageStatus (cri_client_ops X) n i \<noteq> Panic"
  shows "gatherImages X cs =
     Ok (List.map_filter (status_at X) (enumerate 0 (filter (\<lambda>i. i \<noteq> '''') (firsts (map used_image cs)))))"
  using images_in_use_eq [OF assms(2), where seen = "{}" and n = 0 and cs = cs] assms(1)
  by (simp add: gatherImages_def)

theorem images_in_use_exact_witness:
  "gatherImages (example_node True) [example_container, example_container] =
     Ok [\<lparr> ImageID = ''sha'', ImageLabels = [], ImageCreated = None \<rparr>]"
proof -
  have "used_image example_container = ''sha''" by (simp add: used_image_def example_container_def)
  then show ?thesis
    using images_in_use_exact [OF _ example_node_total(2), of True "[example_container, example_container]"]
    by (simp add: status_at_def CRIClient_def example_status List.map_filter_simps)
qed

text \<open>C27. But the references are not the images: when two running containers name one image by different
  references (a tag and a digest, or two digests of one config), the only-in-use mode sends its creation time
  twice, and Prometheus rejects the whole scrape of the node.\<close>

theorem same_image_sent_twice:
  assumes "label_contract (n_label_ok E)" "fs_total E" "onlyImagesInUse X"
    and running: "op_ListRunningContainers (cri_client_ops X) = Ok [c1, c2]" "list_all (utf8_info E X) [c1, c2]"
    and refs: "used_image c1 \<noteq> used_image c2" "used_image c1 \<noteq> ''''" "used_image c2 \<noteq> ''''"
    and status: "op_ImageStatus (cri_client_ops X) 0 (used_image c1) = Ok img"
      "op_ImageStatus (cri_client_ops X) 1 (used_image c2) = Ok img"
    and img: "utf8_image img" "ImageID img \<noteq> ''''" "ImageCreated img = Some t"
  shows "\<not> distinct (map series (sent (CollectNode E X)))"
proof -
  have i: "(if ImageRef c = '''' then ImageName c else ImageRef c) = used_image c" for c
    by (simp add: used_image_def)
  have gather: "gatherImages X [c1, c2] = Ok [img, img]"
    using refs status assms(3) by (simp add: gatherImages_def i Let_def)
  let ?m = "\<lparr> m_desc = metricNodeImageCreated, m_value = Float (float64_of_int (Unix t)), m_labels = [ImageID img] \<rparr>"
  have "\<exists>ms. image_metrics X img = ?m # ms" using img by (simp add: image_metrics_def)
  moreover have "CollectNode E X = Open (List.map_filter (node_info E X) [c1, c2]
      @ concat (map (image_metrics X) [img, img]) @ [node_up_metric 1])"
    using CollectNode_open [OF assms(1,2) running] gather img(1) by simp
  ultimately show ?thesis by auto
qed

definition two_refs_cri :: cri_ops where
  "two_refs_cri =
     \<lparr> op_ListRunningContainers = Ok [example_container\<lparr> PID := None \<rparr>, example_container\<lparr> ID := ''c2'', PID := None, ImageRef := ''tag'' \<rparr>],
       op_ListImages = Ok [],
       op_ImageStatus = (\<lambda>_ _. Ok \<lparr> ImageID = ''cfg'', ImageLabels = [], ImageCreated = Some (At 0) \<rparr>) \<rparr>"

theorem same_image_sent_twice_witness:
  "\<not> distinct (map series (sent (CollectNode (example_file '''') (NewExporter two_refs_cri [WithOnlyImagesInUse True]))))"
proof (rule same_image_sent_twice [OF example_node_env example_fs])
  show "utf8_image \<lparr> ImageID = ''cfg'', ImageLabels = [], ImageCreated = Some (At 0) \<rparr>" by code_simp
  show "op_ListRunningContainers (cri_client_ops (NewExporter two_refs_cri [WithOnlyImagesInUse True])) =
      Ok [example_container\<lparr> PID := None \<rparr>, example_container\<lparr> ID := ''c2'', PID := None, ImageRef := ''tag'' \<rparr>]"
    by (simp add: NewExporter_def two_refs_cri_def)
qed (simp_all add: NewExporter_def two_refs_cri_def used_image_def example_container_def utf8_info_def node_info_def)

text \<open>C28. One container can take the node's exporter down: when its os-release file holds a field that is not valid
  UTF-8, the scrape panics in \<open>MustNewConstMetric\<close> instead of reporting an error.\<close>

theorem invalid_os_release_crashes:
  assumes "label_contract (n_label_ok E)" "op_ListRunningContainers (cri_client_ops X) = Ok (c # cs)"
    and "PID c = Some pid" "pid \<noteq> 0" "readOSRelease E (procRoot X) pid = Ok osr"
    and "f \<in> set os_fields" "osr f = Some v" "\<not> valid_utf8 v"
  shows "crashed (CollectNode E X)"
proof -
  have "v \<in> set (info_labels c osr)"
    using assms(6,7) by (force simp: info_labels_def key_def image_iff)
  with assms(8) have "\<not> good_labels metricNodeContainerInfo (info_labels c osr)"
    by (auto simp: good_labels_def list_all_iff)
  then have "collectOSInfo E X c (Open []) = Crashed []"
    using assms(3-5) by (simp add: collectOSInfo_def Let_def send_Open [OF assms(1)])
  then show ?thesis by (simp add: CollectNode_def assms(2) Let_def)
qed

theorem invalid_os_release_crashes_witness:
  "crashed (CollectNode (example_file (render [(''NAME'', [CHR 0xFF])])) (example_node True))"
proof (rule invalid_os_release_crashes [OF example_node_env example_running])
  show "readOSRelease (example_file (render [(''NAME'', [CHR 0xFF])])) (procRoot (example_node True)) 7 =
      Ok [''NAME'' \<mapsto> [CHR 0xFF]]"
    using ParseOSRelease_render [of "[(''NAME'', [CHR 0xFF])]"]
    by (simp add: example_read storable_def key_char_def MaxScanTokenSize_def)
  show "\<not> valid_utf8 [CHR 0xFF]" by code_simp
qed (simp_all add: os_fields_def)

end
