(* ===== verification/Command.thy ===== *)
theory Command
  imports Setup Node_Exporter
begin

section \<open>The two commands (\<^verbatim>\<open>cmd/clusterexporter.go\<close>, \<^verbatim>\<open>cmd/nodeexporter.go\<close>)\<close>

text \<open>
  What the \<open>RunE\<close> functions do with the flags. Flag parsing, the controller manager, gRPC and the HTTP
  server are parameters; the records of flags hold what parsing has left in the package variables.
\<close>

subsection \<open>cluster-exporter\<close>

record cluster_flags =
  metricsAddr :: string
  probeAddr :: string
  f_cacheDuration :: duration
  f_platform :: string
  f_k8sKeychain :: bool
  f_registryConcurrency :: int
  f_registryRPS :: float64
  f_registryTimeout :: duration
  f_installNamespace :: string
  f_namespaces :: "string list"
  f_annotationAllowlist :: "string list"
  f_labelAllowlist :: "string list"
  f_imagePullSecrets :: "string list"

text \<open>The defaults \<open>init\<close> registers.\<close>

definition default_cluster_flags :: cluster_flags where
  "default_cluster_flags =
     \<lparr> metricsAddr = '':8080'', probeAddr = '':8081'', f_cacheDuration = 3600000000000, f_platform = '''',
       f_k8sKeychain = False, f_registryConcurrency = 10, f_registryRPS = Finite 5 0,
       f_registryTimeout = 30000000000, f_installNamespace = '''', f_namespaces = [],
       f_annotationAllowlist = [], f_labelAllowlist = [], f_imagePullSecrets = [] \<rparr>"

text \<open>The options of the manager's cache: the namespaces all objects are read from, and those of Secrets.\<close>

record cache_options =
  DefaultNamespaces :: "string set option"
  SecretNamespaces :: "string set option"

definition cluster_cache_options :: "cluster_flags \<Rightarrow> cache_options outcome" where
  "cluster_cache_options F =
     (let c = \<lparr> DefaultNamespaces = (if length (f_namespaces F) > 0 then Some (set (f_namespaces F)) else None),
                SecretNamespaces = None \<rparr>
      in if length (f_imagePullSecrets F) > 0 then
           if f_installNamespace F = ''''
           then Err (External ''--image-pull-secret requires --install-namespace to be set to the namespace the named Secrets live in'')
           else Ok (c\<lparr> SecretNamespaces := Some {f_installNamespace F} \<rparr>)
         else Ok c)"

definition cluster_options :: "cluster_flags \<Rightarrow> 'p option \<Rightarrow> ('p, 'r) option_fn list" where
  "cluster_options F p =
     [WithCacheDuration (f_cacheDuration F),
      WithK8sKeychain (f_k8sKeychain F),
      WithPlatform p,
      WithRegistryConcurrency (f_registryConcurrency F),
      WithRegistryRPS (f_registryRPS F),
      WithRegistryTimeout (f_registryTimeout F),
      WithAnnotationAllowlist (f_annotationAllowlist F),
      WithLabelAllowlist (f_labelAllowlist F),
      WithInstallNamespace (f_installNamespace F),
      WithImagePullSecrets (f_imagePullSecrets F)]"

text \<open>\<open>GetConfigOrDie\<close> ends the process when there is no configuration, and so does the panic of
  \<open>MustRegister\<close>: both are \<open>Panic\<close>. \<open>host_platform\<close> is \<open>GOOS/GOARCH\<close>.\<close>

record ('p, 'r, 'sec, 'k, 'a) command_env =
  has_config :: bool
  NewManager_err :: "cache_options \<Rightarrow> error option"
  host_platform :: string
  ParsePlatform :: "string \<Rightarrow> 'p outcome"
  setup_of :: "('r, 'sec, 'k, 'a) setup_env"
  AddHealthzCheck_err :: "error option"
  AddRunnable_err :: "error option"
  AddReadyzCheck_err :: "error option"
  Start_err :: "error option"

text \<open>\<open>RunE\<close>: its error, and the manager as it was when it was started, or as far as it was set up. \<open>M\<close>
  is the fresh manager; \<open>started\<close> tells whether \<open>Start\<close> was called.\<close>

record ('p, 'r, 'l, 's, 'k) cluster_run =
  run_result :: "unit outcome"
  run_manager :: "('p, 'r, 'l, 's, 'k) manager"
  run_cache :: "cache_options option"
  started :: bool

fun result_of :: "string \<Rightarrow> error option \<Rightarrow> unit outcome" where
  "result_of msg None = Ok ()"
| "result_of msg (Some e) = Err (Errorf msg (Some e))"

definition run_cluster ::
  "('p, 'r, 'sec, 'k, 'a) command_env \<Rightarrow> cluster_flags \<Rightarrow> ('p, 'r, 'l, 's, 'k) manager \<Rightarrow> ('p, 'r, 'l, 's, 'k) cluster_run" where
  "run_cluster C F M =
     (let stop = (\<lambda>r M c. \<lparr> run_result = r, run_manager = M, run_cache = c, started = False \<rparr>) in
      if \<not> has_config C then stop Panic M None
      else
        (case cluster_cache_options F of
           Err e \<Rightarrow> stop (Err e) M None
         | Panic \<Rightarrow> stop Panic M None
         | Ok c \<Rightarrow>
           (case NewManager_err C c of
              Some e \<Rightarrow> stop (Err (Errorf ''creating a new manager'' (Some e))) M (Some c)
            | None \<Rightarrow>
              (case wrap ''parsing platform'' (ParsePlatform C (if f_platform F = '''' then host_platform C else f_platform F)) of
                 Err e \<Rightarrow> stop (Err e) M (Some c)
               | Panic \<Rightarrow> stop Panic M (Some c)
               | Ok p \<Rightarrow>
                 (case MustRegister (setup_of C) [''container_image_cluster_exporter_build_info''] (registry M) of
                    None \<Rightarrow> stop Panic M (Some c)
                  | Some reg \<Rightarrow>
                    (case SetupControllers (setup_of C) (cluster_options F (Some p)) (M\<lparr> registry := reg \<rparr>) of
                       (Err e, M1) \<Rightarrow> stop (Err (Errorf ''setting up controllers'' (Some e))) M1 (Some c)
                     | (Panic, M1) \<Rightarrow> stop Panic M1 (Some c)
                     | (Ok _, M1) \<Rightarrow>
                         if AddHealthzCheck_err C \<noteq> None then stop (result_of ''adding healthz check'' (AddHealthzCheck_err C)) M1 (Some c)
                         else if AddRunnable_err C \<noteq> None then stop (result_of ''adding cache-sync tracker'' (AddRunnable_err C)) M1 (Some c)
                         else if AddReadyzCheck_err C \<noteq> None then stop (result_of ''adding readyz check'' (AddReadyzCheck_err C)) M1 (Some c)
                         else \<lparr> run_result = (case Start_err C of None \<Rightarrow> Ok () | Some e \<Rightarrow> Err e),
                                run_manager = M1, run_cache = Some c, started = True \<rparr>))))))"

text \<open>The readiness probe: the tracker sets the flag once the informers have synced, and nothing clears it.\<close>

definition cache_sync_tracker :: "bool \<Rightarrow> bool \<Rightarrow> bool" where
  "cache_sync_tracker synced flag = (if synced then True else flag)"

definition readyz :: "bool \<Rightarrow> error option" where
  "readyz flag = (if \<not> flag then Some (External ''informer cache not synced'') else None)"

subsection \<open>node-exporter\<close>

record node_flags =
  neMetricsAddr :: string
  neCRISocket :: string
  neProcRoot :: string
  neOnlyImagesInUse :: bool
  neLabelAllowlist :: "string list"

definition default_node_flags :: node_flags where
  "default_node_flags =
     \<lparr> neMetricsAddr = '':8080'', neCRISocket = ''/run/containerd/containerd.sock'', neProcRoot = ''/host/proc'',
       neOnlyImagesInUse = True, neLabelAllowlist = [] \<rparr>"

text \<open>\<open>dial\<close> is \<open>grpc.NewClient\<close>, \<open>serve\<close> the error \<open>ListenAndServe\<close> ends with; the collector is what
  \<open>/metrics\<close> asks.\<close>

record node_command_env =
  dial :: "string \<Rightarrow> cri_ops outcome"
  RegisterNode :: "NodeExporter \<Rightarrow> bool"
  RegisterBuildInfo :: bool
  serve :: "string \<Rightarrow> NodeExporter \<Rightarrow> unit outcome"

definition node_options :: "node_flags \<Rightarrow> node_option list" where
  "node_options F =
     [WithProcRoot (neProcRoot F), WithOnlyImagesInUse (neOnlyImagesInUse F), WithNodeLabelAllowlist (neLabelAllowlist F)]"

definition run_node :: "node_command_env \<Rightarrow> node_flags \<Rightarrow> unit outcome" where
  "run_node C F =
     (case wrap ''dialing CRI socket'' (dial C (''unix://'' @ neCRISocket F)) of
        Err e \<Rightarrow> Err e | Panic \<Rightarrow> Panic
      | Ok conn \<Rightarrow>
          (let collector = NewExporter conn (node_options F)
           in if \<not> RegisterNode C collector then Panic
              else if \<not> RegisterBuildInfo C then Panic
              else serve C (neMetricsAddr F) collector))"


subsection \<open>Lemmas\<close>

lemma cluster_options_applied:
  "apply_options (cluster_options F p) =
     \<lparr> o_k8sKeychain = f_k8sKeychain F,
       o_cacheDuration = (if f_cacheDuration F \<le> 0 then 3600000000000 else f_cacheDuration F),
       o_platform = p, o_registryConcurrency = f_registryConcurrency F, o_registryRPS = f_registryRPS F,
       o_registryTimeout = f_registryTimeout F, o_metricsRegistry = None,
       o_annotationAllowlist = f_annotationAllowlist F, o_labelAllowlist = f_labelAllowlist F,
       o_installNamespace = f_installNamespace F, o_imagePullSecrets = f_imagePullSecrets F \<rparr>"
  by (simp add: apply_options_def cluster_options_def default_options_def)

text \<open>A run that starts the manager has set up the controllers with the options of its flags.\<close>

lemma run_cluster_started:
  assumes "started (run_cluster C F M)"
  obtains p reg where
    "SetupControllers (setup_of C) (cluster_options F (Some p)) (M\<lparr> registry := reg \<rparr>) = (Ok (), run_manager (run_cluster C F M))"
    "\<exists>c. run_cache (run_cluster C F M) = Some c \<and> cluster_cache_options F = Ok c"
    "ParsePlatform C (if f_platform F = '''' then host_platform C else f_platform F) = Ok p"
proof (cases "has_config C")
  case False
  with assms show ?thesis by (simp add: run_cluster_def Let_def)
next
  case config: True
  show ?thesis
  proof (cases "cluster_cache_options F")
    case c: (Ok c)
    show ?thesis
    proof (cases "NewManager_err C c")
      case manager: None
      show ?thesis
      proof (cases "ParsePlatform C (if f_platform F = '''' then host_platform C else f_platform F)")
        case p: (Ok p)
        show ?thesis
        proof (cases "MustRegister (setup_of C) [''container_image_cluster_exporter_build_info''] (registry M)")
          case None
          with assms show ?thesis by (simp add: run_cluster_def Let_def config c manager p)
        next
          case reg: (Some reg)
          obtain r M1 where s: "SetupControllers (setup_of C) (cluster_options F (Some p)) (M\<lparr> registry := reg \<rparr>) = (r, M1)"
            by fastforce
          note run = run_cluster_def [of C F M] Let_def config c manager p reg s
          show ?thesis
          proof (cases r)
            case (Ok u)
            with assms have "run_manager (run_cluster C F M) = M1" "run_cache (run_cluster C F M) = Some c"
              by (simp_all add: run split: if_splits)
            with Ok s c p that show ?thesis by simp
          qed (use assms in \<open>simp_all add: run\<close>)
        qed
      qed (use assms in \<open>simp_all add: run_cluster_def Let_def config c manager\<close>)
    qed (use assms in \<open>simp_all add: run_cluster_def Let_def config c\<close>)
  qed (use assms in \<open>simp_all add: run_cluster_def Let_def config\<close>)
qed

subsection \<open>Properties\<close>

definition example_command :: "(nat, unit, string, string list, string) command_env" where
  "example_command =
     \<lparr> has_config = True, NewManager_err = (\<lambda>_. None), host_platform = ''linux/amd64'', ParsePlatform = (\<lambda>_. Ok 7),
       setup_of = example_setup, AddHealthzCheck_err = None, AddRunnable_err = None, AddReadyzCheck_err = None,
       Start_err = None \<rparr>"

definition example_flags :: cluster_flags where
  "example_flags = default_cluster_flags\<lparr> f_registryConcurrency := 1, f_cacheDuration := 0,
     f_installNamespace := ''cie'', f_imagePullSecrets := [''creds''], f_namespaces := [''apps''] \<rparr>"

definition example_run :: "(nat, unit, unit, int \<times> int, string list) cluster_run" where
  "example_run = run_cluster example_command example_flags empty_manager"

lemma example_run_started: "started example_run"
  by code_simp

text \<open>The flags reach every image reconciler: the timeout, the keychain switch and the duration, where a duration that
  is not positive means an hour; and a platform is always configured, the host's own if no other is named.\<close>

theorem cluster_command_wired:
  assumes "started (run_cluster C F M)" "controllers M = []" "R \<in> set (reconcilers (run_manager (run_cluster C F M)))"
  shows "CacheDuration R = (if f_cacheDuration F \<le> 0 then 3600000000000 else f_cacheDuration F) \<and> 0 < CacheDuration R
     \<and> RegistryTimeout R = f_registryTimeout F \<and> K8sKeychain R = f_k8sKeychain F
     \<and> (\<exists>p. Platform R = Some p
          \<and> ParsePlatform C (if f_platform F = '''' then host_platform C else f_platform F) = Ok p)"
proof -
  obtain p reg where s: "SetupControllers (setup_of C) (cluster_options F (Some p)) (M\<lparr> registry := reg \<rparr>)
      = (Ok (), run_manager (run_cluster C F M))"
    and p: "ParsePlatform C (if f_platform F = '''' then host_platform C else f_platform F) = Ok p"
    by (rule run_cluster_started [OF assms(1)])
  let ?o = "apply_options (cluster_options F (Some p) :: ('a, 'b) option_fn list)"
  obtain additional where "controllers (run_manager (run_cluster C F M)) = controllers (M\<lparr> registry := reg \<rparr>)
      @ pull_controllers ?o @ map (\<lambda>r. ImageController (wr_object r) (reconciler_for ?o (static_keychain ?o) r))
           (builtinResources @ additional)"
    by (rule SetupControllers_Ok [OF s])
  then have "reconcilers (run_manager (run_cluster C F M)) = map (reconciler_for ?o (static_keychain ?o)) (builtinResources @ additional)"
    by (intro reconcilers_of_setup) (simp add: assms(2))
  with assms(3) obtain r where "R = reconciler_for ?o (static_keychain ?o) r" by auto
  then show ?thesis using p by (simp add: reconciler_for_def cluster_options_applied)
qed

theorem cluster_command_wired_witness:
  "Platform (hd (reconcilers (run_manager example_run))) = Some 7
     \<and> CacheDuration (hd (reconcilers (run_manager example_run))) = 3600000000000"
proof -
  have "0 < length (reconcilers (run_manager example_run))" by code_simp
  then have "hd (reconcilers (run_manager example_run)) \<in> set (reconcilers (run_manager example_run))" by simp
  from cluster_command_wired [OF example_run_started [unfolded example_run_def] _ this [unfolded example_run_def]]
  show ?thesis
    by (auto simp: example_run_def empty_manager_def example_flags_def default_cluster_flags_def example_command_def)
qed

text \<open>C40. The Secrets the pull-secret controller reads are always in the manager's cache, also when \<open>--namespaces\<close> leaves
  their namespace out, and the cache holds no other Secrets.\<close>

theorem pull_secrets_visible:
  assumes "started (run_cluster C F M)" "controllers M = []"
    and "PullSecretController P \<in> set (controllers (run_manager (run_cluster C F M)))"
  shows "ps_names P = f_imagePullSecrets F \<and> ps_namespace P \<noteq> ''''
     \<and> map_option SecretNamespaces (run_cache (run_cluster C F M)) = Some (Some {ps_namespace P})"
proof -
  obtain p reg where s: "SetupControllers (setup_of C) (cluster_options F (Some p)) (M\<lparr> registry := reg \<rparr>)
      = (Ok (), run_manager (run_cluster C F M))"
    and c: "\<exists>c. run_cache (run_cluster C F M) = Some c \<and> cluster_cache_options F = Ok c"
    by (rule run_cluster_started [OF assms(1)])
  let ?o = "apply_options (cluster_options F (Some p) :: ('a, 'b) option_fn list)"
  obtain additional where "controllers (run_manager (run_cluster C F M)) = controllers (M\<lparr> registry := reg \<rparr>)
      @ pull_controllers ?o @ map (\<lambda>r. ImageController (wr_object r) (reconciler_for ?o (static_keychain ?o) r))
           (builtinResources @ additional)"
    by (rule SetupControllers_Ok [OF s])
  with assms(2,3) have P: "f_imagePullSecrets F \<noteq> []"
      "P = \<lparr> ps_namespace = f_installNamespace F, ps_names = f_imagePullSecrets F \<rparr>"
    by (auto simp: pull_controllers_def cluster_options_applied split: if_splits)
  with c show ?thesis by (auto simp: cluster_cache_options_def Let_def split: if_splits)
qed

theorem pull_secrets_visible_witness:
  "map_option SecretNamespaces (run_cache example_run) = Some (Some {''cie''})"
proof -
  have "0 < length (controllers (run_manager example_run))"
    and "case hd (controllers (run_manager example_run)) of
           PullSecretController P \<Rightarrow> ps_namespace P = ''cie'' | _ \<Rightarrow> False"
    by code_simp+
  then obtain P where P: "ps_namespace P = ''cie''" "PullSecretController P = hd (controllers (run_manager example_run))"
    by (cases "hd (controllers (run_manager example_run))") auto
  with \<open>0 < length (controllers (run_manager example_run))\<close>
  have "PullSecretController P \<in> set (controllers (run_manager example_run))" by simp
  from pull_secrets_visible [OF example_run_started [unfolded example_run_def] _ this [unfolded example_run_def]]
  show ?thesis by (simp add: example_run_def empty_manager_def P(1))
qed



end
