(* ===== verification/Spec2Isabelle.thy ===== *)
theory Spec2Isabelle
  imports Go_Base Container_Specs Image_Cache Reconciler Resources Cluster_Exporter Registry_Transport Pull_Secrets
    Setup Node_Exporter Command
begin

text \<open>
  A verification library for container-image-exporter, two Prometheus exporters in one Go binary.

  The cluster exporter (\<^verbatim>\<open>internal/clusterexporter\<close>) watches Kubernetes resources. One reconciler per
  resource type extracts the containers of an object, fetches the metadata of their images from the
  registries and puts it into a cache they all share; a collector lists the same resource types at every
  scrape, looks the containers' images up in the cache, sends the metrics and evicts what no workload
  uses. The node exporter (\<^verbatim>\<open>internal/nodeexporter\<close>) asks the node's container runtime for containers
  and images and reads \<^verbatim>\<open>os-release\<close> files below \<^verbatim>\<open>/proc\<close>. \<^verbatim>\<open>cmd\<close> turns flags into either of them.

  Theories, in the order of their imports:
  \<^item> \<^verbatim>\<open>Go_Base\<close>: the prelude. Outcomes (value, error, panic), error chains, 64-bit integers with their
    wrap-around, \<open>float64\<close> of an integer, the clock, \<open>strconv.Itoa\<close>, \<open>strings.Join\<close>, JSON values,
    generic lemmas on lists.
  \<^item> \<^verbatim>\<open>Container_Specs\<close> (reconciler.go: \<open>containerSpecs\<close>, \<open>specsForPath\<close>, \<open>imagePullSecrets\<close>,
    \<open>serviceAccountName\<close>): which containers and credentials an object has. The inductive predicate
    \<open>container_loc\<close> says where the containers of a path stand; the code finds exactly those, each with
    a JSONPath of its own.
  \<^item> \<^verbatim>\<open>Image_Cache\<close> (cache.go): the two maps as association lists and \<open>Get\<close>, \<open>Put\<close>, \<open>Evict\<close>; the locale
    \<open>image_cache\<close> is the contract the reconciler and the collector rely on, interpreted on \<open>cacheImpl\<close>;
    the cache refines one map from references to images.
  \<^item> \<^verbatim>\<open>Reconciler\<close> (reconciler.go: \<open>Reconcile\<close>, \<open>getImage\<close>, \<open>fetchImage\<close>, \<open>newKeychain\<close>,
    \<open>resolveImageFromDescriptor\<close>, \<open>addJitter\<close>): what a reconcile puts into the cache, what fails and
    why, how often a registry is asked, and what becomes of an entry that has expired.
  \<^item> \<^verbatim>\<open>Resources\<close> (setup.go: the tables and \<open>discoverAdditionalResources\<close>): which types are watched.
  \<^item> \<^verbatim>\<open>Utf8\<close>, \<^verbatim>\<open>Prometheus\<close>: byte strings that are UTF-8, descriptions, samples, the channel a collector
    sends on, and the locale \<open>collector\<close>, the contract of a registered collector; both exporters
    interpret it.
  \<^item> \<^verbatim>\<open>Cluster_Exporter\<close> (metrics.go): \<open>Collect\<close> with its three loops as folds over an explicit state;
    the lemma \<open>Collect_open\<close> says the whole scrape as one list, from which the properties follow.
    Other goroutines may work on the cache between any two lookups (\<open>e_others\<close>).
  \<^item> \<^verbatim>\<open>Registry_Transport\<close> (transport.go): the layers on the HTTP transport. Requests are threads with a
    program counter and a stack of deferred calls; \<open>perform\<close> is one step of one of them, \<open>reachable\<close>
    what any interleaving leads to. The locale \<open>host_table\<close> is the contract of \<open>limiterFor\<close> and
    \<open>semFor\<close>. Invariants: a semaphore holds what its requests still have to release; a counter counts
    the answered requests. No fuel: a request makes at most eleven steps, and cannot deadlock.
  \<^item> \<^verbatim>\<open>Pull_Secrets\<close> (keychain.go): the keychain behind an atomic pointer and the controller that
    rebuilds it.
  \<^item> \<^verbatim>\<open>Setup\<close> (options.go; setup.go: \<open>SetupControllers\<close>): how reconcilers, transport, keychain, cache and
    collector are put together, and that they fit.
  \<^item> \<^verbatim>\<open>Label_Values\<close>, \<^verbatim>\<open>OS_Release\<close>, \<^verbatim>\<open>CRI_Client\<close>, \<^verbatim>\<open>Node_Exporter\<close> (exporter.go, osrelease.go, cri.go):
    truncation on rune boundaries, the os-release parser with \<open>bufio.Scanner\<close> and
    \<open>strings.TrimSpace\<close>, the decoding of the runtime's JSON, and the node scrape as one list
    (\<open>CollectNode_open\<close>). The locale \<open>cri_client\<close> is what the scrape needs of the client.
  \<^item> \<^verbatim>\<open>Command\<close> (clusterexporter.go, nodeexporter.go in \<^verbatim>\<open>cmd\<close>): from the flags to the manager's cache
    options and the options of the exporters.
  \<^item> This theory: reconcilers and collector together.

  Correspondence. A definition has the name of its Go function where that is free; a suffix or a plain
  phrase names the loops, which are functions on the rest of the range. A struct is a record, an
  interface the locale or the record of its operations, a mutex makes an operation one step. Go maps are
  association lists where their order could be seen (the cache, where the result is shown not to depend
  on it; labels and annotations) and functions otherwise. Errors keep their chain, not their text.
  Whatever is not in the repository (API server, registry client, credential helpers, CRI services, file
  system, JSON tokenizer, clock, random numbers, semaphores, limiters, metric registry) is a field of a
  record the definitions take; what is relied on is stated as a contract (\<open>parse_contract\<close>,
  \<open>registry_contract\<close>, \<open>label_contract\<close>, \<open>nested_contract\<close>, \<open>weighted_contract\<close>), and every property that
  has hypotheses comes with an instance at which they hold.

  What the theorems show of defects. An expired cache entry is never refreshed, and every reconcile that
  finds one fails (\<open>expired_entry_never_refreshed\<close>, \<open>requeue_finds_expired\<close>); a cache duration below six
  nanoseconds panics (\<open>addJitter_spec\<close>), and so does an index entry without platform
  (\<open>index_platform_choice\<close>) and an \<^verbatim>\<open>os-release\<close> value that is not UTF-8 (\<open>invalid_os_release_crashes\<close>);
  an image in use by digest can be evicted (\<open>active_digest_evicted\<close>); two references to one image make
  the node scrape invalid (\<open>same_image_sent_twice\<close>).

  Not modelled: log lines, help texts and error texts; the thirty-second timeout of a scrape other than as
  an error of the calls below it; \<open>AddToScheme\<close>, the command tree, \<open>main\<close> and the build-info collector,
  which only call libraries; flag parsing, the HTTP server, the controller manager's queues; the token
  arithmetic of the rate limiter.
\<close>

section \<open>From the reconcilers to the collector\<close>

text \<open>
  The reconcilers and the collector meet in the cache only. While a scrape runs, other reconcilers may
  put images into it: \<open>fetch_put\<close> describes what such a \<open>Put\<close> looks like.
\<close>

definition fetch_put :: "collect_env \<Rightarrow> cache_event \<Rightarrow> bool" where
  "fetch_put D ev \<longleftrightarrow>
     (\<exists>s ref i stamp. ev = EvPut ref (Some i) stamp \<and> e_Parse D s = Ok ref \<and> Digest i \<noteq> ''''
        \<and> (\<forall>u d. ref = DigestRef u d \<longrightarrow> d = Digest i))"

definition parse_inj :: "collect_env \<Rightarrow> bool" where
  "parse_inj D \<longleftrightarrow> (\<forall>s r. e_Parse D s = Ok r \<longrightarrow> ref_String r = s)"

definition readable :: "cacheImpl \<Rightarrow> reference \<Rightarrow> bool" where
  "readable c ref \<longleftrightarrow> cache_inv c \<and> (\<exists>ci. Get c ref = Ok ci)"

lemma readable_fetch_put:
  assumes "parse_inj D" "e_Parse D s = Ok ref" "readable c ref" "fetch_put D ev"
  shows "readable (ops_step cacheImpl_ops c ev) ref"
proof -
  from assms(4) obtain t r i stamp where ev: "ev = EvPut r (Some i) stamp" "Digest i \<noteq> ''''" "e_Parse D t = Ok r"
    and "\<forall>u d. r = DigestRef u d \<longrightarrow> d = Digest i"
    unfolding fetch_put_def by blast
  then have d: "\<And>u d. r = DigestRef u d \<Longrightarrow> d = Digest i" by blast
  from assms(3) obtain ci where c: "cache_inv c" "op_Get cacheImpl_ops c ref = Ok ci"
    by (auto simp: readable_def cacheImpl_ops_def)
  have "\<exists>ci'. op_Get cacheImpl_ops (snd (op_Put cacheImpl_ops c r (Some i) stamp)) ref = Ok ci'"
  proof (cases "ref_String ref = ref_String r")
    case True
    with assms(1,2) ev(3) have "ref = r" unfolding parse_inj_def by (metis outcome.inject(1))
    moreover have "op_Get cacheImpl_ops (snd (op_Put cacheImpl_ops c r (Some i) stamp)) r = Ok \<lparr> cached_img = i, CachedTime = stamp \<rparr>"
      by (rule cache_impl.get_put_same [OF c(1) ev(2) d])
    ultimately show ?thesis by blast
  next
    case False
    with cache_impl.get_put_nonempty [OF c(1) ev(2) c(2)] show ?thesis by blast
  qed
  with cache_impl.put_inv [OF c(1)] show ?thesis by (simp add: readable_def ev(1) cacheImpl_ops_def)
qed

lemma readable_fetch_puts:
  "parse_inj D \<Longrightarrow> e_Parse D s = Ok ref \<Longrightarrow> list_all (fetch_put D) evs \<Longrightarrow> readable c ref \<Longrightarrow>
     readable (ops_run cacheImpl_ops c evs) ref"
proof (induction evs arbitrary: c)
  case Nil
  then show ?case by (simp add: ops_run_def)
next
  case (Cons ev evs)
  then show ?case using readable_fetch_put [of D s ref c ev] by (simp add: ops_run_def)
qed

lemma visits_readable:
  assumes "parse_inj D" "\<And>n. list_all (fetch_put D) (e_others D n)"
    and "e_Parse D (Image (snd s)) = Ok ref" "readable c ref" "s \<in> set ss"
  shows "\<exists>v \<in> set (visits D cacheImpl_ops n c ss). fst v = s \<and> visit_digest v \<noteq> ''''"
  using assms(4,5)
proof (induction ss arbitrary: n c)
  case Nil
  then show ?case by simp
next
  case (Cons t ss)
  let ?c = "ops_run cacheImpl_ops c (e_others D n)"
  have c: "readable ?c ref" by (rule readable_fetch_puts [OF assms(1,3,2) Cons.prems(1)])
  show ?case
  proof (cases "t = s")
    case True
    from c obtain ci where "Get ?c ref = Ok ci" "cache_inv ?c" by (auto simp: readable_def)
    moreover from this have "Digest (cached_img ci) \<noteq> ''''" by (metis Get_digest Get_Ok_iff)
    ultimately show ?thesis
      using True assms(3) by (simp add: visit_digest_def Let_def) (simp add: cacheImpl_ops_def)
  next
    case False
    then show ?thesis
      using Cons.IH [OF c, of "Suc n"] Cons.IH [OF Cons.prems(1), of n] Cons.prems(2)
      by (auto simp: Let_def split: outcome.split)
  qed
qed




definition example_resource :: watchedResource where
  "example_resource = pod_resource\<lparr> containerPaths := [[''spec'', ''containers'']] \<rparr>"

definition reconciled_world :: "cacheImpl world" where
  "reconciled_world = snd (Reconcile example_env example_reconciler (''ns'', ''pod'') example_world)"

lemma reconciled_world:
  "Reconcile example_env example_reconciler (''ns'', ''pod'') example_world = (Ok \<lparr> RequeueAfter = 60 \<rparr>, reconciled_world)"
  using example_reconcile by (auto simp: reconciled_world_def)

lemma example_scrape_utf8:
  "list_all (utf8_visit example_collect_env) (visits example_collect_env cacheImpl_ops 0 (cache reconciled_world)
     (sites example_collect_env [(example_resource, [example_obj])]))"
  by code_simp


end
